theory Spec2Isabelle
  imports Main "HOL-Library.AList" "HOL-Library.Extended_Nat"
begin

section \<open>Data model of the quiz buzzer server\<close>

text \<open>
  The development follows \<^verbatim>\<open>src/backend/server.ts\<close>; \<^verbatim>\<open>src/server.js\<close> is the same
  program without the type annotations, and the two handlers whose control flow differs
  there (\<^verbatim>\<open>press-buzzer\<close>, \<^verbatim>\<open>reset-buzzer\<close>) are modelled a second time with the suffix
  \<open>_js\<close>.

  JavaScript numbers that the server only ever uses as integers (team numbers, team
  counts, millisecond timestamps) are \<^typ>\<open>int\<close>. Strings are \<^typ>\<open>string\<close>; every
  string the server inspects character by character is ASCII.
\<close>

subsection \<open>Classes and interfaces\<close>

text \<open>
  \<^verbatim>\<open>class Player\<close>. A \<^verbatim>\<open>Player\<close> object is shared: the room's \<^verbatim>\<open>players\<close> array and the
  entries of the global \<^verbatim>\<open>players\<close> map hold references to the same object, and
  \<^verbatim>\<open>join-room\<close> assigns to its \<^verbatim>\<open>socketId\<close> field. Player objects therefore live in an
  explicit store: a list of objects, a reference being the position of the object in
  the store, and \<^verbatim>\<open>new Player(...)\<close> appending to it. The field \<^verbatim>\<open>id\<close> is called
  \<open>id_p\<close> (\<open>id\<close> is the identity function of HOL), and \<^verbatim>\<open>team\<close> is \<open>team_p\<close>
  (the buzzer event has a field of the same name).
\<close>

record Player =
  id_p :: string
  name :: string
  team_p :: int
  isHost :: bool
  socketId :: string

type_synonym ref = nat
type_synonym store = "Player list"

text \<open>\<^verbatim>\<open>interface BuzzerEvent\<close>; never assigned to after its construction.\<close>

record BuzzerEvent =
  playerId :: string
  playerName :: string
  team :: int
  timestamp :: int

text \<open>
  \<^verbatim>\<open>class Room\<close>. \<^verbatim>\<open>players\<close> is the array of references to player objects;
  \<^verbatim>\<open>firstBuzzer\<close> is \<^verbatim>\<open>BuzzerEvent | null\<close>; \<^verbatim>\<open>createdAt\<close> is the \<^verbatim>\<open>Date\<close>'s
  \<^verbatim>\<open>getTime()\<close>, in milliseconds. A room object is referenced by the \<^verbatim>\<open>rooms\<close> map only,
  so it is stored there by value and an assignment to one of its fields is an update
  of the map's entry.
\<close>

record Room =
  code :: string
  teamCount :: int
  hostName :: string
  players :: "ref list"
  buzzerPressed :: bool
  firstBuzzer :: "BuzzerEvent option"
  buzzerOrder :: "BuzzerEvent list"
  createdAt :: int

text \<open>The constructor of \<^verbatim>\<open>Room\<close>; \<open>now\<close> is the value of \<^verbatim>\<open>new Date()\<close>.\<close>

definition new_Room :: "int \<Rightarrow> string \<Rightarrow> int \<Rightarrow> string \<Rightarrow> Room" where
  "new_Room now code0 teamCount0 hostName0 =
     \<lparr>code = code0, teamCount = teamCount0, hostName = hostName0, players = [],
      buzzerPressed = False, firstBuzzer = None, buzzerOrder = [], createdAt = now\<rparr>"

subsection \<open>The JavaScript \<^verbatim>\<open>Map\<close>\<close>

text \<open>
  A \<^verbatim>\<open>Map\<close> iterates in insertion order, and \<^verbatim>\<open>delete-room\<close> searches the entries of
  the \<^verbatim>\<open>players\<close> map in that order, so a map is an association list: \<^verbatim>\<open>set\<close> on a
  present key replaces the value where it stands, \<^verbatim>\<open>set\<close> on an absent key appends,
  \<^verbatim>\<open>delete\<close> removes the entry.
\<close>

type_synonym ('k, 'v) js_map = "('k \<times> 'v) list"

definition map_get :: "('k, 'v) js_map \<Rightarrow> 'k \<Rightarrow> 'v option" where
  "map_get m k = map_of m k"

definition map_has :: "('k, 'v) js_map \<Rightarrow> 'k \<Rightarrow> bool" where
  "map_has m k = (map_of m k \<noteq> None)"

definition map_set :: "('k, 'v) js_map \<Rightarrow> 'k \<Rightarrow> 'v \<Rightarrow> ('k, 'v) js_map" where
  "map_set m k v = AList.update k v m"

definition map_delete :: "('k, 'v) js_map \<Rightarrow> 'k \<Rightarrow> ('k, 'v) js_map" where
  "map_delete m k = AList.delete k m"

text \<open>
  The two module-level maps, and the store of player objects. \<^verbatim>\<open>players\<close> maps a
  socket id to \<^verbatim>\<open>{ player, roomCode }\<close>; it is called \<open>players_g\<close> here, \<open>players\<close>
  being the field of \<open>Room\<close>.
\<close>

record state =
  rooms :: "(string, Room) js_map"
  players_g :: "(string, ref \<times> string) js_map"
  heap :: store

definition init_state :: state where
  "init_state = \<lparr>rooms = [], players_g = [], heap = []\<rparr>"

subsection \<open>What a handler sends\<close>

text \<open>
  Each handler returns the messages it emits, in order, with the new state. A
  \<^verbatim>\<open>room-state\<close> message carries the room as serialised at that moment: the room and the
  player objects its \<^verbatim>\<open>players\<close> array refers to. Who is subscribed to a room's channel
  (\<^verbatim>\<open>socket.join\<close>) is the transport library's state and is not modelled: a broadcast
  is recorded with the room code it is addressed to.
\<close>

datatype payload =
    Error string
  | PlayerJoined Player
  | RoomState Room "Player list"
  | BuzzerPressed BuzzerEvent
  | RoomDeleted
  | AckCreated string
  | AckRoom Room "Player list"
  | AckRoomNotFound string

datatype emission =
    ToSocket string payload
  | ToRoom string payload
  | Callback payload

datatype js_error = RangeError

definition snapshot :: "store \<Rightarrow> Room \<Rightarrow> payload" where
  "snapshot h room = RoomState room (map (\<lambda>a. h ! a) (players room))"

section \<open>Utility functions\<close>

subsection \<open>\<^verbatim>\<open>generateRoomCode\<close>\<close>

text \<open>
  \<^verbatim>\<open>Math.random().toString(36).substring(2, 8).toUpperCase()\<close>. The string that
  \<^verbatim>\<open>Math.random().toString(36)\<close> evaluates to is the function's input here (\<open>raw\<close>):
  \<^verbatim>\<open>"0."\<close> followed by the base-36 digits of the random number, for instance
  \<^verbatim>\<open>"0.i"\<close> when the random number is \<^verbatim>\<open>0.5\<close>, or \<^verbatim>\<open>"0"\<close> when it is \<^verbatim>\<open>0\<close>.
  \<^verbatim>\<open>substring(2, 8)\<close> clamps both indices to the length of the string;
  \<^verbatim>\<open>toUpperCase\<close> is modelled on ASCII, which is all that string contains.
\<close>

definition substring :: "string \<Rightarrow> nat \<Rightarrow> nat \<Rightarrow> string" where
  "substring s start end = take (end - start) (drop start s)"

definition toUpperCase_char :: "char \<Rightarrow> char" where
  "toUpperCase_char c =
     (case map_of (zip ''abcdefghijklmnopqrstuvwxyz'' ''ABCDEFGHIJKLMNOPQRSTUVWXYZ'') c of
        None \<Rightarrow> c
      | Some u \<Rightarrow> u)"

definition toUpperCase :: "string \<Rightarrow> string" where
  "toUpperCase s = map toUpperCase_char s"

definition generateRoomCode :: "string \<Rightarrow> string" where
  "generateRoomCode raw = toUpperCase (substring raw 2 8)"

subsection \<open>\<^verbatim>\<open>assignPlayerToTeam\<close>\<close>

text \<open>
  \<^verbatim>\<open>Array(n)\<close> throws a \<^verbatim>\<open>RangeError\<close> for a negative \<^verbatim>\<open>n\<close>. \<^verbatim>\<open>Math.min\<close> of no
  arguments is \<^verbatim>\<open>Infinity\<close>, so the minimum is an \<^typ>\<open>enat\<close>; \<^verbatim>\<open>indexOf\<close> is \<open>-1\<close>
  when the value does not occur. The limits of the runtime on the length of an array
  and on the number of arguments of a call are resource limits and are not modelled.
\<close>

definition Math_min :: "nat list \<Rightarrow> enat" where
  "Math_min xs = fold (\<lambda>x m. min (enat x) m) xs \<infinity>"

fun indexOf_from :: "int \<Rightarrow> nat list \<Rightarrow> enat \<Rightarrow> int" where
  "indexOf_from i [] v = -1"
| "indexOf_from i (x # xs) v = (if enat x = v then i else indexOf_from (i + 1) xs v)"

definition indexOf :: "nat list \<Rightarrow> enat \<Rightarrow> int" where
  "indexOf xs v = indexOf_from 0 xs v"

text \<open>The body of the \<^verbatim>\<open>forEach\<close>: one player counted into \<open>teamCounts\<close>.\<close>

definition count_player :: "store \<Rightarrow> int \<Rightarrow> ref \<Rightarrow> nat list \<Rightarrow> nat list" where
  "count_player h tc a teamCounts =
     (let t = team_p (h ! a)
      in if t > 0 \<and> t \<le> tc
         then teamCounts[nat (t - 1) := Suc (teamCounts ! nat (t - 1))]
         else teamCounts)"

definition assignPlayerToTeam :: "store \<Rightarrow> Room \<Rightarrow> js_error + int" where
  "assignPlayerToTeam h room =
     (if teamCount room < 0 then Inl RangeError
      else
        let teamCounts = fold (count_player h (teamCount room)) (players room)
                           (replicate (nat (teamCount room)) 0);
            minCount = Math_min teamCounts;
            teamIndex = indexOf teamCounts minCount
        in Inr (teamIndex + 1))"

subsection \<open>\<^verbatim>\<open>createRoom\<close>\<close>

text \<open>
  \<open>raw i\<close> is the string the \<open>i\<close>-th evaluation of \<^verbatim>\<open>Math.random().toString(36)\<close>
  yields. The \<^verbatim>\<open>while\<close> loop draws until the code is not a key of \<^verbatim>\<open>rooms\<close>; it need
  not end, and then the result is \<open>None\<close>.
\<close>

partial_function (option) createRoom_loop ::
  "(nat \<Rightarrow> string) \<Rightarrow> nat \<Rightarrow> (string, Room) js_map \<Rightarrow> string option" where
  "createRoom_loop raw i rs =
     (let roomCode = generateRoomCode (raw i)
      in if map_has rs roomCode then createRoom_loop raw (Suc i) rs else Some roomCode)"

definition createRoom ::
  "(nat \<Rightarrow> string) \<Rightarrow> int \<Rightarrow> state \<Rightarrow> int \<Rightarrow> string \<Rightarrow> (Room \<times> state) option" where
  "createRoom raw now s teamCount0 hostName0 =
     (case createRoom_loop raw 0 (rooms s) of
        None \<Rightarrow> None
      | Some roomCode \<Rightarrow>
          let room = new_Room now roomCode teamCount0 hostName0
          in Some (room, s\<lparr>rooms := map_set (rooms s) roomCode room\<rparr>))"

section \<open>The socket handlers\<close>

text \<open>
  \<open>sock\<close> is \<^verbatim>\<open>socket.id\<close> of the connection whose handler runs; the other arguments
  are the fields of the message. A handler that cannot throw returns the messages it
  emits and the new state; \<^verbatim>\<open>join-room\<close> calls \<^verbatim>\<open>assignPlayerToTeam\<close> and returns its
  \<^verbatim>\<open>RangeError\<close> (thrown before anything is assigned).
\<close>

subsection \<open>\<^verbatim>\<open>create-room\<close>\<close>

text \<open>
  \<^verbatim>\<open>createRoom\<close> has no \<^verbatim>\<open>throw\<close> and calls nothing that throws, so the \<^verbatim>\<open>catch\<close>
  branch of the handler is never taken.
\<close>

definition create_room ::
  "(nat \<Rightarrow> string) \<Rightarrow> int \<Rightarrow> state \<Rightarrow> int \<Rightarrow> string \<Rightarrow> (emission list \<times> state) option" where
  "create_room raw now s teamCount0 hostName0 =
     (case createRoom raw now s teamCount0 hostName0 of
        None \<Rightarrow> None
      | Some (room, s') \<Rightarrow> Some ([Callback (AckCreated (code room))], s'))"

subsection \<open>\<^verbatim>\<open>join-room\<close>\<close>

definition join_room ::
  "state \<Rightarrow> string \<Rightarrow> string \<Rightarrow> string \<Rightarrow> bool \<Rightarrow> js_error + emission list \<times> state" where
  "join_room s sock roomCode playerName0 isHost0 =
     (case map_get (rooms s) roomCode of
        None \<Rightarrow> Inr ([ToSocket sock (Error ''Room not found'')], s)
      | Some room \<Rightarrow>
          (case find (\<lambda>a. name (heap s ! a) = playerName0) (players room) of
             None \<Rightarrow>
               (case assignPlayerToTeam (heap s) room of
                  Inl e \<Rightarrow> Inl e
                | Inr team0 \<Rightarrow>
                    let a = length (heap s);
                        player = \<lparr>id_p = sock, name = playerName0, team_p = team0,
                                  isHost = (isHost0 \<or> players room = []), socketId = sock\<rparr>;
                        h' = heap s @ [player];
                        room' = room\<lparr>players := players room @ [a]\<rparr>
                    in Inr ([ToSocket sock (PlayerJoined player),
                             ToRoom roomCode (snapshot h' room')],
                            s\<lparr>rooms := map_set (rooms s) roomCode room',
                              players_g := map_set (players_g s) sock (a, roomCode),
                              heap := h'\<rparr>))
           | Some a \<Rightarrow>
               let h' = (heap s)[a := (heap s ! a)\<lparr>socketId := sock\<rparr>]
               in Inr ([ToSocket sock (PlayerJoined (h' ! a)),
                        ToRoom roomCode (snapshot h' room)],
                       s\<lparr>players_g := map_set (players_g s) sock (a, roomCode),
                         heap := h'\<rparr>)))"

subsection \<open>\<^verbatim>\<open>press-buzzer\<close>\<close>

text \<open>\<open>now\<close> is the value of \<^verbatim>\<open>Date.now()\<close>.\<close>

definition new_BuzzerEvent :: "Player \<Rightarrow> int \<Rightarrow> BuzzerEvent" where
  "new_BuzzerEvent player now =
     \<lparr>playerId = id_p player, playerName = name player, team = team_p player,
      timestamp = now\<rparr>"

definition press_buzzer :: "state \<Rightarrow> string \<Rightarrow> string \<Rightarrow> int \<Rightarrow> emission list \<times> state" where
  "press_buzzer s roomCode playerId0 now =
     (case map_get (rooms s) roomCode of
        None \<Rightarrow> ([], s)
      | Some room \<Rightarrow>
          if buzzerPressed room then ([], s)
          else
            (case find (\<lambda>a. id_p (heap s ! a) = playerId0) (players room) of
               None \<Rightarrow> ([], s)
             | Some a \<Rightarrow>
                 let buzzerEvent = new_BuzzerEvent (heap s ! a) now;
                     room' = room\<lparr>buzzerPressed := True,
                                  firstBuzzer := Some buzzerEvent,
                                  buzzerOrder := buzzerOrder room @ [buzzerEvent]\<rparr>
                 in ([ToRoom roomCode (BuzzerPressed buzzerEvent),
                      ToRoom roomCode (snapshot (heap s) room')],
                     s\<lparr>rooms := map_set (rooms s) roomCode room'\<rparr>)))"

text \<open>In \<^verbatim>\<open>src/server.js\<close> the two messages are sent in the other order.\<close>

definition press_buzzer_js :: "state \<Rightarrow> string \<Rightarrow> string \<Rightarrow> int \<Rightarrow> emission list \<times> state" where
  "press_buzzer_js s roomCode playerId0 now =
     (case map_get (rooms s) roomCode of
        None \<Rightarrow> ([], s)
      | Some room \<Rightarrow>
          if buzzerPressed room then ([], s)
          else
            (case find (\<lambda>a. id_p (heap s ! a) = playerId0) (players room) of
               None \<Rightarrow> ([], s)
             | Some a \<Rightarrow>
                 let buzzerEvent = new_BuzzerEvent (heap s ! a) now;
                     room' = room\<lparr>buzzerPressed := True,
                                  firstBuzzer := Some buzzerEvent,
                                  buzzerOrder := buzzerOrder room @ [buzzerEvent]\<rparr>
                 in ([ToRoom roomCode (snapshot (heap s) room'),
                      ToRoom roomCode (BuzzerPressed buzzerEvent)],
                     s\<lparr>rooms := map_set (rooms s) roomCode room'\<rparr>)))"

subsection \<open>\<^verbatim>\<open>reset-buzzer\<close>\<close>

text \<open>
  \<^verbatim>\<open>playerData?.player.isHost\<close>, as a condition: false when the connection has no
  entry in the \<^verbatim>\<open>players\<close> map, the flag of the player object of the entry otherwise.
\<close>

definition playerData_isHost :: "state \<Rightarrow> string \<Rightarrow> bool" where
  "playerData_isHost s sock =
     (case map_get (players_g s) sock of
        None \<Rightarrow> False
      | Some (a, rc) \<Rightarrow> isHost (heap s ! a))"

definition reset_room :: "Room \<Rightarrow> Room" where
  "reset_room room = room\<lparr>buzzerPressed := False, firstBuzzer := None, buzzerOrder := []\<rparr>"

definition reset_buzzer :: "state \<Rightarrow> string \<Rightarrow> string \<Rightarrow> emission list \<times> state" where
  "reset_buzzer s sock roomCode =
     (case map_get (rooms s) roomCode of
        None \<Rightarrow> ([ToSocket sock (Error ''Only the host can reset the buzzer'')], s)
      | Some room \<Rightarrow>
          if \<not> playerData_isHost s sock
          then ([ToSocket sock (Error ''Only the host can reset the buzzer'')], s)
          else
            let room' = reset_room room
            in ([ToRoom roomCode (snapshot (heap s) room')],
                s\<lparr>rooms := map_set (rooms s) roomCode room'\<rparr>))"

text \<open>In \<^verbatim>\<open>src/server.js\<close> a missing room makes the handler return without a message.\<close>

definition reset_buzzer_js :: "state \<Rightarrow> string \<Rightarrow> string \<Rightarrow> emission list \<times> state" where
  "reset_buzzer_js s sock roomCode =
     (case map_get (rooms s) roomCode of
        None \<Rightarrow> ([], s)
      | Some room \<Rightarrow>
          if \<not> playerData_isHost s sock
          then ([ToSocket sock (Error ''Only the host can reset the buzzer'')], s)
          else
            let room' = reset_room room
            in ([ToRoom roomCode (snapshot (heap s) room')],
                s\<lparr>rooms := map_set (rooms s) roomCode room'\<rparr>))"

subsection \<open>\<^verbatim>\<open>get-room\<close>, \<^verbatim>\<open>disconnect\<close>\<close>

definition get_room :: "state \<Rightarrow> string \<Rightarrow> emission list \<times> state" where
  "get_room s roomCode =
     (case map_get (rooms s) roomCode of
        None \<Rightarrow> ([Callback (AckRoomNotFound ''Room not found'')], s)
      | Some room \<Rightarrow>
          ([Callback (AckRoom room (map (\<lambda>a. heap s ! a) (players room)))], s))"

definition disconnect :: "state \<Rightarrow> string \<Rightarrow> emission list \<times> state" where
  "disconnect s sock =
     (case map_get (players_g s) sock of
        None \<Rightarrow> ([], s)
      | Some (a, roomCode) \<Rightarrow>
          ((case map_get (rooms s) roomCode of
              None \<Rightarrow> []
            | Some room \<Rightarrow> [ToRoom roomCode (snapshot (heap s) room)]),
           s\<lparr>players_g := map_delete (players_g s) sock\<rparr>))"

subsection \<open>\<^verbatim>\<open>delete-room\<close>\<close>

text \<open>
  The body of the \<^verbatim>\<open>forEach\<close>: the first entry of the \<^verbatim>\<open>players\<close> map whose player has
  the \<^verbatim>\<open>id\<close> of the room's player, if there is one, is deleted.
\<close>

definition delete_entry_of ::
  "store \<Rightarrow> ref \<Rightarrow> (string, ref \<times> string) js_map \<Rightarrow> (string, ref \<times> string) js_map" where
  "delete_entry_of h a pm =
     (case find (\<lambda>(k, (b, rc)). id_p (h ! b) = id_p (h ! a)) pm of
        None \<Rightarrow> pm
      | Some (k, d) \<Rightarrow> map_delete pm k)"

definition delete_room :: "state \<Rightarrow> string \<Rightarrow> string \<Rightarrow> emission list \<times> state" where
  "delete_room s sock roomCode =
     (if \<not> playerData_isHost s sock
      then ([ToSocket sock (Error ''Only the host can delete the room'')], s)
      else
        (case map_get (rooms s) roomCode of
           None \<Rightarrow> ([], s)
         | Some room \<Rightarrow>
             ([ToRoom roomCode RoomDeleted],
              s\<lparr>players_g := fold (delete_entry_of (heap s)) (players room) (players_g s),
                rooms := map_delete (rooms s) roomCode\<rparr>)))"

section \<open>The hourly clean-up\<close>

text \<open>
  The \<^verbatim>\<open>setInterval\<close> callback; \<open>now\<close> is \<^verbatim>\<open>Date.now()\<close>. The loop visits every entry of
  \<^verbatim>\<open>rooms\<close> once and deletes the visited entry when the condition holds.
\<close>

definition maxAge :: int where
  "maxAge = 2 * 60 * 60 * 1000"

definition cleanup_entry ::
  "int \<Rightarrow> string \<times> Room \<Rightarrow> (string, Room) js_map \<Rightarrow> (string, Room) js_map" where
  "cleanup_entry now e rs =
     (case e of (code0, room) \<Rightarrow>
        if now - createdAt room > maxAge \<and> length (players room) = 0
        then map_delete rs code0 else rs)"

definition cleanup :: "int \<Rightarrow> state \<Rightarrow> state" where
  "cleanup now s = s\<lparr>rooms := fold (cleanup_entry now) (rooms s) (rooms s)\<rparr>"

section \<open>The server as a transition system\<close>

text \<open>
  One command is one run of a handler (or of the clean-up timer) to completion; the
  event loop runs them one after the other. A command carries, besides the message,
  what the handler reads from the environment: the socket id, the clock, the random
  strings.
\<close>

datatype command =
    CreateRoom "nat \<Rightarrow> string" int int string
  | JoinRoom string string string bool
  | PressBuzzer string string int
  | ResetBuzzer string string
  | GetRoom string
  | Disconnect string
  | DeleteRoom string string
  | Cleanup int

fun step :: "state \<Rightarrow> command \<Rightarrow> (js_error + emission list \<times> state) option" where
  "step s (CreateRoom raw now tc hn) = map_option Inr (create_room raw now s tc hn)"
| "step s (JoinRoom sock rc pn ih) = Some (join_room s sock rc pn ih)"
| "step s (PressBuzzer rc pid now) = Some (Inr (press_buzzer s rc pid now))"
| "step s (ResetBuzzer sock rc) = Some (Inr (reset_buzzer s sock rc))"
| "step s (GetRoom rc) = Some (Inr (get_room s rc))"
| "step s (Disconnect sock) = Some (Inr (disconnect s sock))"
| "step s (DeleteRoom sock rc) = Some (Inr (delete_room s sock rc))"
| "step s (Cleanup now) = Some (Inr ([], cleanup now s))"

text \<open>The states the server can be in: those a finite run of commands leads to.\<close>

inductive reachable :: "state \<Rightarrow> bool" where
  init: "reachable init_state"
| step: "reachable s \<Longrightarrow> step s c = Some (Inr (out, s')) \<Longrightarrow> reachable s'"

text \<open>
  A run of commands, each to completion; \<open>None\<close> when a handler does not return or
  throws.
\<close>

fun run :: "state \<Rightarrow> command list \<Rightarrow> state option" where
  "run s [] = Some s"
| "run s (c # cs) =
     (case step s c of
        Some (Inr (out, s')) \<Rightarrow> run s' cs
      | _ \<Rightarrow> None)"

text \<open>
  A sequence of \<^verbatim>\<open>press-buzzer\<close> messages for one room, each with its \<^verbatim>\<open>playerId\<close> and
  the clock at its arrival, handled in order by \<open>press\<close> (one of the two versions of
  the handler): the messages emitted, concatenated, and the last state.
\<close>

fun press_all ::
  "(state \<Rightarrow> string \<Rightarrow> string \<Rightarrow> int \<Rightarrow> emission list \<times> state) \<Rightarrow>
   state \<Rightarrow> string \<Rightarrow> (string \<times> int) list \<Rightarrow> emission list \<times> state" where
  "press_all press s roomCode [] = ([], s)"
| "press_all press s roomCode ((playerId0, now) # ps) =
     (case press s roomCode playerId0 now of
        (out, s') \<Rightarrow>
          (case press_all press s' roomCode ps of
             (outs, s'') \<Rightarrow> (out @ outs, s'')))"

section \<open>Properties stated by the specification\<close>

text \<open>
  The invariant of a room's buzzer fields: \<open>buzzerPressed\<close> exactly when \<open>firstBuzzer\<close>
  is present, \<open>buzzerOrder\<close> non-empty exactly when \<open>buzzerPressed\<close>, and \<open>firstBuzzer\<close>,
  when present, is \<open>buzzerOrder[0]\<close>.
\<close>

definition buzzer_inv :: "Room \<Rightarrow> bool" where
  "buzzer_inv room \<longleftrightarrow>
     (buzzerPressed room \<longleftrightarrow> firstBuzzer room \<noteq> None) \<and>
     (buzzerOrder room \<noteq> [] \<longleftrightarrow> buzzerPressed room) \<and>
     (firstBuzzer room \<noteq> None \<longrightarrow>
        (case buzzerOrder room of [] \<Rightarrow> None | e # es \<Rightarrow> Some e) = firstBuzzer room)"

text \<open>
  The \<^verbatim>\<open>playerId\<close> of a press is known in the room: \<^verbatim>\<open>room.players.find\<close> returns a
  player.
\<close>

definition known_player :: "state \<Rightarrow> Room \<Rightarrow> string \<Rightarrow> bool" where
  "known_player s room playerId0 \<longleftrightarrow>
     find (\<lambda>a. id_p (heap s ! a) = playerId0) (players room) \<noteq> None"

text \<open>The room after the press of the player at \<open>a\<close> has been accepted at time \<open>now\<close>.\<close>

definition pressed_room :: "state \<Rightarrow> Room \<Rightarrow> ref \<Rightarrow> int \<Rightarrow> Room" where
  "pressed_room s room a now =
     room\<lparr>buzzerPressed := True,
          firstBuzzer := Some (new_BuzzerEvent (heap s ! a) now),
          buzzerOrder := buzzerOrder room @ [new_BuzzerEvent (heap s ! a) now]\<rparr>"

text \<open>The invariant, for every room of the registry.\<close>

definition rooms_inv :: "state \<Rightarrow> bool" where
  "rooms_inv s \<longleftrightarrow> (\<forall>c room. map_get (rooms s) c = Some room \<longrightarrow> buzzer_inv room)"


text \<open>
  What the representation takes for granted: a \<^verbatim>\<open>Map\<close> has each key once, and every
  reference held by a room or by the \<^verbatim>\<open>players\<close> map is to an object of the store.
\<close>

definition refs_ok :: "state \<Rightarrow> bool" where
  "refs_ok s \<longleftrightarrow>
     (\<forall>(c, room) \<in> set (rooms s). \<forall>a \<in> set (players room). a < length (heap s)) \<and>
     (\<forall>(k, (a, rc)) \<in> set (players_g s). a < length (heap s))"

definition wf_state :: "state \<Rightarrow> bool" where
  "wf_state s \<longleftrightarrow>
     distinct (map fst (rooms s)) \<and> distinct (map fst (players_g s)) \<and> refs_ok s"

section \<open>A sample session\<close>

text \<open>A source of random strings that gives the same string at every draw.\<close>

definition always :: "string \<Rightarrow> nat \<Rightarrow> string" where
  "always str i = str"


text \<open>
  Two rooms are created; Alice joins the first as host from connection \<open>s1\<close>, Bob joins
  the second from connection \<open>s2\<close>, Dave joins the first from connection \<open>s3\<close>, and
  Bob presses the buzzer.
\<close>

definition session :: "command list" where
  "session =
     [CreateRoom (always ''0.aaaaaa'') 1000 2 ''Alice'',
      CreateRoom (always ''0.bbbbbb'') 2000 2 ''Carol'',
      JoinRoom ''s1'' ''AAAAAA'' ''Alice'' True,
      JoinRoom ''s2'' ''BBBBBB'' ''Bob'' False,
      JoinRoom ''s3'' ''AAAAAA'' ''Dave'' False,
      PressBuzzer ''BBBBBB'' ''s2'' 3000]"

text \<open>The state after the first command of the session: one room, nobody in it.\<close>

definition created_state :: state where
  "created_state =
     \<lparr>rooms = [(''AAAAAA'', new_Room 1000 ''AAAAAA'' 2 ''Alice'')], players_g = [], heap = []\<rparr>"

definition alice :: Player where
  "alice = \<lparr>id_p = ''s1'', name = ''Alice'', team_p = 1, isHost = True, socketId = ''s1''\<rparr>"

definition bob :: Player where
  "bob = \<lparr>id_p = ''s2'', name = ''Bob'', team_p = 1, isHost = True, socketId = ''s2''\<rparr>"

definition dave :: Player where
  "dave = \<lparr>id_p = ''s3'', name = ''Dave'', team_p = 2, isHost = False, socketId = ''s3''\<rparr>"

definition bob_buzz :: BuzzerEvent where
  "bob_buzz = \<lparr>playerId = ''s2'', playerName = ''Bob'', team = 1, timestamp = 3000\<rparr>"

definition roomA :: Room where
  "roomA = \<lparr>code = ''AAAAAA'', teamCount = 2, hostName = ''Alice'', players = [0, 2],
            buzzerPressed = False, firstBuzzer = None, buzzerOrder = [], createdAt = 1000\<rparr>"

definition roomB :: Room where
  "roomB = \<lparr>code = ''BBBBBB'', teamCount = 2, hostName = ''Carol'', players = [1],
            buzzerPressed = True, firstBuzzer = Some bob_buzz, buzzerOrder = [bob_buzz],
            createdAt = 2000\<rparr>"

definition session_state :: state where
  "session_state =
     \<lparr>rooms = [(''AAAAAA'', roomA), (''BBBBBB'', roomB)],
      players_g = [(''s1'', (0, ''AAAAAA'')), (''s2'', (1, ''BBBBBB'')),
                   (''s3'', (2, ''AAAAAA''))],
      heap = [alice, bob, dave]\<rparr>"

text \<open>After the session, Dave joins the first room again, from connection \<open>s9\<close>.\<close>

definition reconnected_state :: state where
  "reconnected_state =
     \<lparr>rooms = [(''AAAAAA'', roomA), (''BBBBBB'', roomB)],
      players_g = [(''s1'', (0, ''AAAAAA'')), (''s2'', (1, ''BBBBBB'')),
                   (''s3'', (2, ''AAAAAA'')), (''s9'', (2, ''AAAAAA''))],
      heap = [alice, bob, dave\<lparr>socketId := ''s9''\<rparr>]\<rparr>"

section \<open>Facts about the map operations\<close>

lemma map_get_set: "map_get (map_set m k v) k' = (if k' = k then Some v else map_get m k')"
  by (simp add: map_get_def map_set_def update_conv')

lemma map_get_delete: "map_get (map_delete m k) k' = (if k' = k then None else map_get m k')"
  by (simp add: map_get_def map_delete_def delete_conv')

lemma map_set_twice: "map_set (map_set m k v) k v' = map_set m k v'"
  by (simp add: map_set_def update_last)

section \<open>Room creation\<close>

lemma createRoom_loop_fresh:
  "\<not> map_has rs (generateRoomCode (raw (i + k))) \<Longrightarrow>
   \<exists>j. createRoom_loop raw i rs = Some (generateRoomCode (raw j)) \<and> i \<le> j \<and>
       \<not> map_has rs (generateRoomCode (raw j))"
proof (induction k arbitrary: i)
  case 0
  then show ?case by (subst createRoom_loop.simps) (auto simp: Let_def)
next
  case (Suc k)
  show ?case
  proof (cases "map_has rs (generateRoomCode (raw i))")
    case True
    from Suc.prems have "\<not> map_has rs (generateRoomCode (raw (Suc i + k)))" by simp
    from Suc.IH[OF this] obtain j where
      "createRoom_loop raw (Suc i) rs = Some (generateRoomCode (raw j))" "Suc i \<le> j"
      "\<not> map_has rs (generateRoomCode (raw j))" by blast
    with True show ?thesis
      by (subst createRoom_loop.simps) (auto simp: Let_def intro!: exI[of _ j])
  next
    case False
    then show ?thesis by (subst createRoom_loop.simps) (auto simp: Let_def)
  qed
qed

lemma createRoom_loop_Some:
  assumes "createRoom_loop raw i rs = Some c"
  shows "\<not> map_has rs c \<and> (\<exists>j\<ge>i. c = generateRoomCode (raw j))"
proof (rule createRoom_loop.raw_induct[OF _ assms])
  fix loop :: "(nat \<Rightarrow> string) \<Rightarrow> nat \<Rightarrow> (string, Room) js_map \<Rightarrow> string option"
  fix raw i rs c
  assume IH: "\<And>raw i rs c. loop raw i rs = Some c \<Longrightarrow>
                \<not> map_has rs c \<and> (\<exists>j\<ge>i. c = generateRoomCode (raw j))"
  assume body: "(let roomCode = generateRoomCode (raw i)
                 in if map_has rs roomCode then loop raw (Suc i) rs else Some roomCode) = Some c"
  show "\<not> map_has rs c \<and> (\<exists>j\<ge>i. c = generateRoomCode (raw j))"
  proof (cases "map_has rs (generateRoomCode (raw i))")
    case True
    with body have "loop raw (Suc i) rs = Some c" by (simp add: Let_def)
    from IH[OF this] show ?thesis by (auto intro: Suc_leD)
  next
    case False
    with body show ?thesis by (auto simp: Let_def)
  qed
qed

lemma createRoom_Some:
  assumes "createRoom raw now s tc hn = Some (room, s')"
  shows "room = new_Room now (code room) tc hn"
    and "\<not> map_has (rooms s) (code room)"
    and "\<exists>j. code room = generateRoomCode (raw j)"
    and "s' = s\<lparr>rooms := map_set (rooms s) (code room) room\<rparr>"
proof -
  from assms obtain c where c: "createRoom_loop raw 0 (rooms s) = Some c"
    and r: "room = new_Room now c tc hn"
    and s': "s' = s\<lparr>rooms := map_set (rooms s) c room\<rparr>"
    by (auto simp: createRoom_def Let_def split: option.splits)
  from r have cr: "code room = c" by (simp add: new_Room_def)
  from r cr show "room = new_Room now (code room) tc hn" by simp
  from createRoom_loop_Some[OF c] cr show "\<not> map_has (rooms s) (code room)" by simp
  from createRoom_loop_Some[OF c] cr show "\<exists>j. code room = generateRoomCode (raw j)" by auto
  from s' cr show "s' = s\<lparr>rooms := map_set (rooms s) (code room) room\<rparr>" by simp
qed

lemmas code_defs = generateRoomCode_def substring_def toUpperCase_def toUpperCase_char_def
  always_def

text \<open>
  Claim C4, as the code has it: \<^verbatim>\<open>createRoom\<close> does not look at \<open>teamCount\<close>.
  Whenever one of the draws gives a code that is not in use, it returns a room for
  every team count, also one below 1, with that team count, and the room is in the
  registry afterwards. There is no \<^verbatim>\<open>InvalidConfig\<close> outcome.
\<close>

theorem createRoom_accepts_any_teamCount:
  "\<not> map_has (rooms s) (generateRoomCode (raw k)) \<Longrightarrow>
   \<exists>room s'. createRoom raw now s tc hn = Some (room, s') \<and>
     teamCount room = tc \<and> hostName room = hn \<and> players room = [] \<and>
     map_get (rooms s') (code room) = Some room"
proof -
  assume "\<not> map_has (rooms s) (generateRoomCode (raw k))"
  then have "\<not> map_has (rooms s) (generateRoomCode (raw (0 + k)))" by simp
  from createRoom_loop_fresh[of "rooms s" raw 0 k, OF this] obtain j where
    "createRoom_loop raw 0 (rooms s) = Some (generateRoomCode (raw j))" by blast
  then show ?thesis
    by (simp add: createRoom_def Let_def new_Room_def map_get_set)
qed

theorem createRoom_accepts_any_teamCount_witness:
  "\<not> map_has (rooms init_state) (generateRoomCode ''0.abcdef'') \<and>
   (\<exists>room s'. createRoom (always ''0.abcdef'') 0 init_state (-3) ''host'' = Some (room, s') \<and>
     teamCount room = -3 \<and> hostName room = ''host'' \<and> players room = [] \<and>
     map_get (rooms s') (code room) = Some room)"
proof -
  have h: "\<not> map_has (rooms init_state) (generateRoomCode (always ''0.abcdef'' 0))"
    by (simp add: init_state_def map_has_def)
  from createRoom_accepts_any_teamCount[where s = init_state and raw = "always ''0.abcdef''"
      and k = 0 and now = 0 and tc = "-3" and hn = "''host''", OF h] h
  show ?thesis by (simp add: always_def)
qed

text \<open>
  Claim C4 says that \<^verbatim>\<open>createRoom\<close> fails when \<open>teamCount < 1\<close> and inserts no room.
  With \<open>teamCount = 0\<close> on the empty registry, \<^verbatim>\<open>createRoom\<close> returns a room and the
  registry holds it.
\<close>

theorem createRoom_InvalidConfig_counterexample:
  "createRoom (always ''0.abcdef'') 0 init_state 0 ''host'' =
     Some (new_Room 0 ''ABCDEF'' 0 ''host'',
           \<lparr>rooms = [(''ABCDEF'', new_Room 0 ''ABCDEF'' 0 ''host'')], players_g = [], heap = []\<rparr>)"
  by (simp add: createRoom_def createRoom_loop.simps init_state_def map_has_def map_set_def
      code_defs Let_def)

text \<open>
  The code of a created room is not in use, has at most six characters, has exactly
  six when every random string has six digits or more after \<^verbatim>\<open>"0."\<close>, and consists
  of digits and capital letters when the random strings consist of digits and small
  letters after \<^verbatim>\<open>"0."\<close>.
\<close>

lemma toUpperCase_char_alnum:
  "c \<in> set ''0123456789abcdefghijklmnopqrstuvwxyz'' \<Longrightarrow>
   toUpperCase_char c \<in> set ''0123456789ABCDEFGHIJKLMNOPQRSTUVWXYZ''"
  by (auto simp: toUpperCase_char_def)

lemma generateRoomCode_format:
  "length (generateRoomCode raw) \<le> 6"
  "8 \<le> length raw \<Longrightarrow> length (generateRoomCode raw) = 6"
  "set (drop 2 raw) \<subseteq> set ''0123456789abcdefghijklmnopqrstuvwxyz'' \<Longrightarrow>
   set (generateRoomCode raw) \<subseteq> set ''0123456789ABCDEFGHIJKLMNOPQRSTUVWXYZ''"
proof -
  show "length (generateRoomCode raw) \<le> 6"
    by (simp add: generateRoomCode_def toUpperCase_def substring_def)
  show "8 \<le> length raw \<Longrightarrow> length (generateRoomCode raw) = 6"
    by (simp add: generateRoomCode_def toUpperCase_def substring_def)
  assume a: "set (drop 2 raw) \<subseteq> set ''0123456789abcdefghijklmnopqrstuvwxyz''"
  have "set (take 6 (drop 2 raw)) \<subseteq> set (drop 2 raw)" by (rule set_take_subset)
  with a have "set (take 6 (drop 2 raw)) \<subseteq> set ''0123456789abcdefghijklmnopqrstuvwxyz''"
    by (rule subset_trans[rotated])
  then have "toUpperCase_char ` set (take 6 (drop 2 raw)) \<subseteq>
             set ''0123456789ABCDEFGHIJKLMNOPQRSTUVWXYZ''"
    using toUpperCase_char_alnum by blast
  then show "set (generateRoomCode raw) \<subseteq> set ''0123456789ABCDEFGHIJKLMNOPQRSTUVWXYZ''"
    by (simp add: generateRoomCode_def toUpperCase_def substring_def)
qed

lemma createRoom_code:
  assumes "createRoom raw now s tc hn = Some (room, s')"
  shows "\<not> map_has (rooms s) (code room)"
    and "length (code room) \<le> 6"
    and "(\<And>i. 8 \<le> length (raw i)) \<Longrightarrow> length (code room) = 6"
    and "(\<And>i. set (drop 2 (raw i)) \<subseteq> set ''0123456789abcdefghijklmnopqrstuvwxyz'') \<Longrightarrow>
         set (code room) \<subseteq> set ''0123456789ABCDEFGHIJKLMNOPQRSTUVWXYZ''"
proof -
  from createRoom_Some(3)[OF assms] obtain j where j: "code room = generateRoomCode (raw j)" ..
  show "\<not> map_has (rooms s) (code room)" by (rule createRoom_Some(2)[OF assms])
  show "length (code room) \<le> 6" unfolding j by (rule generateRoomCode_format(1))
  show "length (code room) = 6" if "\<And>i. 8 \<le> length (raw i)"
    unfolding j by (rule generateRoomCode_format(2)) (rule that)
  show "set (code room) \<subseteq> set ''0123456789ABCDEFGHIJKLMNOPQRSTUVWXYZ''"
    if "\<And>i. set (drop 2 (raw i)) \<subseteq> set ''0123456789abcdefghijklmnopqrstuvwxyz''"
    unfolding j by (rule generateRoomCode_format(3)) (rule that)
qed

text \<open>
  Claim C5: every code of a created room is exactly 6 characters of \<open>[0-9A-Z]\<close> and
  distinct from the codes in use. By \<open>createRoom_code\<close> the code is distinct from the
  codes in use and has no other characters, but it is the first \<^emph>\<open>up to\<close> six digits of
  the random number: when \<^verbatim>\<open>Math.random()\<close> is \<^verbatim>\<open>0.5\<close>, its base-36 form is
  \<^verbatim>\<open>"0.i"\<close> and the room's code is the one character \<^verbatim>\<open>"I"\<close>.
\<close>

theorem createRoom_short_code:
  "map_option (code \<circ> fst) (createRoom (always ''0.i'') 0 init_state 2 ''Alice'') = Some ''I''"
  by (simp add: createRoom_def createRoom_loop.simps init_state_def map_has_def map_set_def
      code_defs new_Room_def Let_def)

lemmas handler_defs =
  create_room_def createRoom_def join_room_def press_buzzer_def press_buzzer_js_def
  reset_buzzer_def reset_buzzer_js_def get_room_def disconnect_def delete_room_def
  delete_entry_of_def cleanup_def cleanup_entry_def playerData_isHost_def reset_room_def
  new_Room_def new_BuzzerEvent_def snapshot_def assignPlayerToTeam_def count_player_def
  Math_min_def indexOf_def maxAge_def

lemmas js_map_defs = map_get_def map_has_def map_set_def map_delete_def

lemmas session_defs = session_def session_state_def alice_def bob_def dave_def bob_buzz_def
  roomA_def roomB_def init_state_def created_state_def reconnected_state_def

section \<open>Runs\<close>

lemma run_reachable: "reachable s \<Longrightarrow> run s cs = Some s' \<Longrightarrow> reachable s'"
proof (induction cs arbitrary: s)
  case Nil
  then show ?case by simp
next
  case (Cons c cs)
  then show ?case
    by (auto split: option.splits sum.splits intro: reachable.step)
qed

lemma session_run: "run init_state session = Some session_state"
  by (simp add: session_defs handler_defs js_map_defs code_defs createRoom_loop.simps Let_def
      eval_nat_numeral del: fold_replicate)

lemma created_run: "run init_state (take 1 session) = Some created_state"
  by (simp add: session_defs handler_defs js_map_defs code_defs createRoom_loop.simps Let_def)

lemma created_reachable: "reachable created_state"
  using run_reachable[OF reachable.init created_run] .

lemma session_reachable: "reachable session_state"
  using run_reachable[OF reachable.init session_run] .

section \<open>Well-formed states\<close>

lemma set_map_set: "set (map_set m k v) \<subseteq> insert (k, v) (set m)"
  unfolding map_set_def by (induction m) auto

lemma set_map_delete: "set (map_delete m k) \<subseteq> set m"
  unfolding map_delete_def by (auto simp: AList.delete_eq)

lemma distinct_map_set: "distinct (map fst m) \<Longrightarrow> distinct (map fst (map_set m k v))"
  unfolding map_set_def by (rule distinct_update)

lemma distinct_map_delete: "distinct (map fst m) \<Longrightarrow> distinct (map fst (map_delete m k))"
  unfolding map_delete_def by (rule distinct_delete)

lemma map_get_Some_iff:
  "distinct (map fst m) \<Longrightarrow> map_get m k = Some v \<longleftrightarrow> (k, v) \<in> set m"
  unfolding map_get_def by simp

lemma map_get_in_set: "map_get m k = Some v \<Longrightarrow> (k, v) \<in> set m"
  unfolding map_get_def by (rule map_of_SomeD)

lemma delete_entries_set: "set (fold (delete_entry_of h) as pm) \<subseteq> set pm"
proof (induction as arbitrary: pm)
  case Nil
  then show ?case by simp
next
  case (Cons a as)
  have "set (delete_entry_of h a pm) \<subseteq> set pm"
    using set_map_delete by (fastforce simp: delete_entry_of_def split: option.splits)
  with Cons.IH[of "delete_entry_of h a pm"] show ?case by auto
qed

lemma delete_entries_distinct:
  "distinct (map fst pm) \<Longrightarrow> distinct (map fst (fold (delete_entry_of h) as pm))"
proof (induction as arbitrary: pm)
  case Nil
  then show ?case by simp
next
  case (Cons a as)
  from Cons.prems have "distinct (map fst (delete_entry_of h a pm))"
    by (auto simp: delete_entry_of_def distinct_map_delete split: option.splits)
  from Cons.IH[OF this] show ?case by simp
qed

lemma cleanup_fold_set: "set (fold (cleanup_entry now) es rs) \<subseteq> set rs"
proof (induction es arbitrary: rs)
  case Nil
  then show ?case by simp
next
  case (Cons e es)
  have "set (cleanup_entry now e rs) \<subseteq> set rs"
    using set_map_delete[of rs "fst e"] by (cases e) (auto simp: cleanup_entry_def)
  with Cons.IH[of "cleanup_entry now e rs"] show ?case by auto
qed

lemma cleanup_fold_distinct:
  "distinct (map fst rs) \<Longrightarrow> distinct (map fst (fold (cleanup_entry now) es rs))"
proof (induction es arbitrary: rs)
  case Nil
  then show ?case by simp
next
  case (Cons e es)
  from Cons.prems have "distinct (map fst (cleanup_entry now e rs))"
    by (auto simp: cleanup_entry_def distinct_map_delete split: prod.splits)
  from Cons.IH[OF this] show ?case by simp
qed

lemma wf_init: "wf_state init_state"
  by (simp add: wf_state_def refs_ok_def init_state_def)

lemma wf_createRoom:
  assumes "wf_state s" "createRoom raw now s tc hn = Some (room, s')"
  shows "wf_state s'"
proof -
  from assms(2) obtain c where s': "s' = s\<lparr>rooms := map_set (rooms s) c (new_Room now c tc hn)\<rparr>"
    by (auto simp: createRoom_def Let_def split: option.splits)
  have "set (rooms s') \<subseteq> insert (c, new_Room now c tc hn) (set (rooms s))"
    unfolding s' using set_map_set by simp
  moreover have "players (new_Room now c tc hn) = []" by (simp add: new_Room_def)
  ultimately have "refs_ok s'" using assms(1)
    unfolding wf_state_def refs_ok_def s' by fastforce
  with assms(1) show ?thesis unfolding wf_state_def s' by (simp add: distinct_map_set)
qed

lemma wf_join_room:
  assumes "wf_state s" "join_room s sock rc pn ih = Inr (out, s')"
  shows "wf_state s'"
proof (cases "map_get (rooms s) rc")
  case None
  with assms show ?thesis by (simp add: join_room_def)
next
  case (Some room)
  from assms(1) Some have room_ok: "\<forall>a\<in>set (players room). a < length (heap s)"
    unfolding wf_state_def refs_ok_def by (auto dest!: map_get_in_set)
  show ?thesis
  proof (cases "find (\<lambda>a. name (heap s ! a) = pn) (players room)")
    case None
    with assms(2) Some obtain t where
      s': "s' = s\<lparr>rooms := map_set (rooms s) rc (room\<lparr>players := players room @ [length (heap s)]\<rparr>),
                  players_g := map_set (players_g s) sock (length (heap s), rc),
                  heap := heap s @ [\<lparr>id_p = sock, name = pn, team_p = t,
                                    isHost = (ih \<or> players room = []), socketId = sock\<rparr>]\<rparr>"
      by (auto simp: join_room_def Let_def split: sum.splits)
    have r: "set (rooms s') \<subseteq> insert (rc, room\<lparr>players := players room @ [length (heap s)]\<rparr>) (set (rooms s))"
      unfolding s' using set_map_set by simp
    have p: "set (players_g s') \<subseteq> insert (sock, (length (heap s), rc)) (set (players_g s))"
      unfolding s' using set_map_set by simp
    have l: "length (heap s') = Suc (length (heap s))" unfolding s' by simp
    have "refs_ok s'"
      unfolding refs_ok_def l
    proof (intro conjI ballI)
      fix e assume "e \<in> set (rooms s')"
      with r have "e = (rc, room\<lparr>players := players room @ [length (heap s)]\<rparr>) \<or> e \<in> set (rooms s)"
        by auto
      then show "case e of (c, room) \<Rightarrow> \<forall>a\<in>set (players room). a < Suc (length (heap s))"
        using room_ok assms(1) unfolding wf_state_def refs_ok_def by fastforce
    next
      fix e assume "e \<in> set (players_g s')"
      with p have "e = (sock, (length (heap s), rc)) \<or> e \<in> set (players_g s)" by auto
      then show "case e of (k, a, rc) \<Rightarrow> a < Suc (length (heap s))"
        using assms(1) unfolding wf_state_def refs_ok_def by fastforce
    qed
    with assms(1) show ?thesis unfolding wf_state_def s' by (simp add: distinct_map_set)
  next
    case (Some a)
    with assms(2) \<open>map_get (rooms s) rc = Some room\<close> have
      s': "s' = s\<lparr>players_g := map_set (players_g s) sock (a, rc),
                  heap := (heap s)[a := (heap s ! a)\<lparr>socketId := sock\<rparr>]\<rparr>"
      by (auto simp: join_room_def Let_def)
    from Some have "a \<in> set (players room)" by (auto simp: find_Some_iff)
    with room_ok have a: "a < length (heap s)" by simp
    have p: "set (players_g s') \<subseteq> insert (sock, (a, rc)) (set (players_g s))"
      unfolding s' using set_map_set by simp
    have "refs_ok s'"
      unfolding refs_ok_def
    proof (intro conjI ballI)
      fix e assume "e \<in> set (rooms s')"
      then show "case e of (c, room) \<Rightarrow> \<forall>a\<in>set (players room). a < length (heap s')"
        using assms(1) unfolding wf_state_def refs_ok_def s' by fastforce
    next
      fix e assume "e \<in> set (players_g s')"
      with p have "e = (sock, (a, rc)) \<or> e \<in> set (players_g s)" by auto
      then show "case e of (k, a, rc) \<Rightarrow> a < length (heap s')"
        using a assms(1) unfolding wf_state_def refs_ok_def s' by fastforce
    qed
    with assms(1) show ?thesis unfolding wf_state_def s' by (simp add: distinct_map_set)
  qed
qed

lemma wf_rooms_update:
  assumes "wf_state s" "map_get (rooms s) rc = Some room" "players room' = players room"
  shows "wf_state (s\<lparr>rooms := map_set (rooms s) rc room'\<rparr>)"
proof -
  from assms(1,2) have room_ok: "\<forall>a\<in>set (players room). a < length (heap s)"
    unfolding wf_state_def refs_ok_def by (auto dest!: map_get_in_set)
  have "\<forall>e \<in> set (map_set (rooms s) rc room'). e = (rc, room') \<or> e \<in> set (rooms s)"
    using set_map_set[of "rooms s" rc room'] by auto
  then have "refs_ok (s\<lparr>rooms := map_set (rooms s) rc room'\<rparr>)"
    using room_ok assms(1,3) unfolding wf_state_def refs_ok_def by fastforce
  with assms(1) show ?thesis unfolding wf_state_def by (simp add: distinct_map_set)
qed

lemma wf_press_buzzer: "wf_state s \<Longrightarrow> wf_state (snd (press_buzzer s rc pid now))"
  by (auto simp: press_buzzer_def Let_def wf_rooms_update split: option.splits)

lemma wf_reset_buzzer: "wf_state s \<Longrightarrow> wf_state (snd (reset_buzzer s sock rc))"
  by (auto simp: reset_buzzer_def Let_def reset_room_def wf_rooms_update split: option.splits)

lemma wf_disconnect: "wf_state s \<Longrightarrow> wf_state (snd (disconnect s sock))"
  using set_map_delete[of "players_g s" sock]
  by (auto simp: disconnect_def wf_state_def refs_ok_def distinct_map_delete
      split: option.splits)

lemma wf_delete_room: "wf_state s \<Longrightarrow> wf_state (snd (delete_room s sock rc))"
proof -
  assume wf: "wf_state s"
  show ?thesis
  proof (cases "playerData_isHost s sock \<and> map_get (rooms s) rc \<noteq> None")
    case False
    with wf show ?thesis by (auto simp: delete_room_def)
  next
    case True
    then obtain room where room: "map_get (rooms s) rc = Some room" by auto
    with True have s': "snd (delete_room s sock rc) =
        s\<lparr>players_g := fold (delete_entry_of (heap s)) (players room) (players_g s),
          rooms := map_delete (rooms s) rc\<rparr>"
      by (simp add: delete_room_def)
    show ?thesis
      unfolding s' using wf set_map_delete[of "rooms s" rc]
        delete_entries_set[of "heap s" "players room" "players_g s"]
      unfolding wf_state_def refs_ok_def
      by (simp add: distinct_map_delete delete_entries_distinct) blast
  qed
qed

lemma wf_cleanup: "wf_state s \<Longrightarrow> wf_state (cleanup now s)"
  using cleanup_fold_set[of now "rooms s" "rooms s"]
  unfolding wf_state_def refs_ok_def cleanup_def
  by (simp add: cleanup_fold_distinct) blast

lemma wf_step: "wf_state s \<Longrightarrow> step s c = Some (Inr (out, s')) \<Longrightarrow> wf_state s'"
proof (cases c)
  case (CreateRoom raw now tc hn)
  assume "wf_state s" "step s c = Some (Inr (out, s'))"
  with CreateRoom show ?thesis
    by (auto simp: create_room_def split: option.splits dest: wf_createRoom)
next
  case (JoinRoom sock rc pn ih)
  assume "wf_state s" "step s c = Some (Inr (out, s'))"
  with JoinRoom show ?thesis by (auto dest: wf_join_room)
next
  case (PressBuzzer rc pid now)
  assume "wf_state s" "step s c = Some (Inr (out, s'))"
  with PressBuzzer wf_press_buzzer[of s rc pid now] show ?thesis by auto
next
  case (ResetBuzzer sock rc)
  assume "wf_state s" "step s c = Some (Inr (out, s'))"
  with ResetBuzzer wf_reset_buzzer[of s sock rc] show ?thesis by auto
next
  case (GetRoom rc)
  assume "wf_state s" "step s c = Some (Inr (out, s'))"
  with GetRoom show ?thesis by (auto simp: get_room_def split: option.splits)
next
  case (Disconnect sock)
  assume "wf_state s" "step s c = Some (Inr (out, s'))"
  with Disconnect wf_disconnect[of s sock] show ?thesis by auto
next
  case (DeleteRoom sock rc)
  assume "wf_state s" "step s c = Some (Inr (out, s'))"
  with DeleteRoom wf_delete_room[of s sock rc] show ?thesis by auto
next
  case (Cleanup now)
  assume "wf_state s" "step s c = Some (Inr (out, s'))"
  with Cleanup wf_cleanup[of s now] show ?thesis by auto
qed

lemma reachable_wf: "reachable s \<Longrightarrow> wf_state s"
  by (induction rule: reachable.induct) (auto intro: wf_init wf_step)

section \<open>The clean-up sweep\<close>

lemma cleanup_fold_map_of:
  "map_of (fold (cleanup_entry now) es rs) c =
     (if \<exists>room. (c, room) \<in> set es \<and> now - createdAt room > maxAge \<and> players room = []
      then None else map_of rs c)"
proof (induction es arbitrary: rs)
  case Nil
  then show ?case by simp
next
  case (Cons e es)
  obtain c0 room0 where e: "e = (c0, room0)" by (cases e)
  show ?case
    unfolding fold_simps Cons.IH e
    by (auto simp: cleanup_entry_def map_delete_def delete_conv')
qed

text \<open>
  Claim C10: a sweep at time \<open>now\<close> leaves every room that has a player in the
  registry, whatever its age, and removes a room without players exactly when
  \<open>now - createdAt\<close> exceeds two hours (7200000 ms); it adds no room and touches
  nothing else.
\<close>

theorem cleanup_deletes_exactly_old_empty_rooms:
  assumes "reachable s"
  shows "map_get (rooms (cleanup now s)) c =
           (case map_get (rooms s) c of
              None \<Rightarrow> None
            | Some room \<Rightarrow>
                if players room = [] \<and> now - createdAt room > 7200000 then None
                else Some room) \<and>
         players_g (cleanup now s) = players_g s \<and> heap (cleanup now s) = heap s"
proof -
  from reachable_wf[OF assms] have d: "distinct (map fst (rooms s))"
    by (simp add: wf_state_def)
  have "map_get (rooms (cleanup now s)) c =
           (case map_get (rooms s) c of
              None \<Rightarrow> None
            | Some room \<Rightarrow>
                if players room = [] \<and> now - createdAt room > 7200000 then None
                else Some room)"
  proof (cases "map_of (rooms s) c")
    case None
    then show ?thesis by (simp add: cleanup_def map_get_def cleanup_fold_map_of)
  next
    case (Some room)
    have "(c, room') \<in> set (rooms s) \<longleftrightarrow> map_of (rooms s) c = Some room'" for room'
      by (rule map_of_eq_Some_iff[OF d, symmetric])
    with Some have "\<And>room'. (c, room') \<in> set (rooms s) \<longleftrightarrow> room' = room"
      by auto
    with Some show ?thesis
      by (simp add: cleanup_def map_get_def cleanup_fold_map_of maxAge_def)
  qed
  then show ?thesis by (simp add: cleanup_def)
qed

theorem cleanup_deletes_exactly_old_empty_rooms_witness:
  "reachable created_state \<and>
   map_get (rooms (cleanup 7201001 created_state)) ''AAAAAA'' = None \<and>
   map_get (rooms (cleanup 7201000 created_state)) ''AAAAAA'' =
     Some (new_Room 1000 ''AAAAAA'' 2 ''Alice'') \<and>
   reachable session_state \<and>
   map_get (rooms (cleanup 999999999 session_state)) ''AAAAAA'' = Some roomA"
proof -
  have a: "map_get (rooms (cleanup 7201001 created_state)) ''AAAAAA'' = None"
    using cleanup_deletes_exactly_old_empty_rooms[OF created_reachable, of 7201001 "''AAAAAA''"]
    by (simp add: created_state_def map_get_def new_Room_def)
  have b: "map_get (rooms (cleanup 7201000 created_state)) ''AAAAAA'' =
             Some (new_Room 1000 ''AAAAAA'' 2 ''Alice'')"
    using cleanup_deletes_exactly_old_empty_rooms[OF created_reachable, of 7201000 "''AAAAAA''"]
    by (simp add: created_state_def map_get_def new_Room_def)
  have c: "map_get (rooms (cleanup 999999999 session_state)) ''AAAAAA'' = Some roomA"
    using cleanup_deletes_exactly_old_empty_rooms[OF session_reachable, of 999999999 "''AAAAAA''"]
    by (simp add: session_state_def map_get_def roomA_def)
  from a b c created_reachable session_reachable show ?thesis by simp
qed

section \<open>Resetting the buzzer\<close>

lemma playerData_isHost_iff:
  "playerData_isHost s sock \<longleftrightarrow>
     (\<exists>a rc. map_get (players_g s) sock = Some (a, rc) \<and> isHost (heap s ! a))"
  by (auto simp: playerData_isHost_def split: option.splits)

lemma reset_room_idem: "reset_room (reset_room room) = reset_room room"
  by (simp add: reset_room_def)

lemma reset_buzzer_host:
  assumes "map_get (rooms s) rc = Some room" "playerData_isHost s sock"
  shows "reset_buzzer s sock rc =
           ([ToRoom rc (snapshot (heap s) (reset_room room))],
            s\<lparr>rooms := map_set (rooms s) rc (reset_room room)\<rparr>)"
    and "reset_buzzer_js s sock rc = reset_buzzer s sock rc"
  using assms by (simp_all add: reset_buzzer_def reset_buzzer_js_def Let_def)

lemma reset_buzzer_not_host:
  assumes "map_get (rooms s) rc = Some room" "\<not> playerData_isHost s sock"
  shows "reset_buzzer s sock rc =
           ([ToSocket sock (Error ''Only the host can reset the buzzer'')], s)"
    and "reset_buzzer_js s sock rc = reset_buzzer s sock rc"
  using assms by (simp_all add: reset_buzzer_def reset_buzzer_js_def)

lemma reset_buzzer_twice:
  assumes "map_get (rooms s) rc = Some room" "playerData_isHost s sock"
  shows "reset_buzzer (snd (reset_buzzer s sock rc)) sock rc = reset_buzzer s sock rc"
proof -
  let ?s' = "s\<lparr>rooms := map_set (rooms s) rc (reset_room room)\<rparr>"
  have g: "map_get (rooms ?s') rc = Some (reset_room room)" by (simp add: map_get_set)
  have h': "playerData_isHost ?s' sock" using assms(2) by (simp add: playerData_isHost_iff)
  have twice: "?s'\<lparr>rooms := map_set (rooms ?s') rc (reset_room (reset_room room))\<rparr> = ?s'"
    by (simp add: map_set_twice reset_room_idem)
  show ?thesis
    unfolding reset_buzzer_host(1)[OF assms] snd_conv reset_buzzer_host(1)[OF g h'] twice
    by (simp add: reset_room_idem)
qed

text \<open>
  Claim C7: for a room of the registry, a \<^verbatim>\<open>reset-buzzer\<close> from a connection whose
  player is not a host is answered with the error message and changes nothing; from a
  connection whose player is a host it makes \<open>buzzerPressed\<close> false, \<open>firstBuzzer\<close>
  absent and \<open>buzzerOrder\<close> empty, leaving the rest of the room and of the state as it
  was, and a second reset sends the same message and leaves the same state. Both
  versions of the handler behave so.
\<close>

theorem reset_buzzer_host_only:
  assumes "map_get (rooms s) rc = Some room"
    and "map_get (players_g s) sock = Some (a, rc')"
  shows "(\<not> isHost (heap s ! a) \<longrightarrow>
            reset_buzzer s sock rc =
              ([ToSocket sock (Error ''Only the host can reset the buzzer'')], s) \<and>
            reset_buzzer_js s sock rc = reset_buzzer s sock rc) \<and>
         (isHost (heap s ! a) \<longrightarrow>
            (\<exists>out s'.
               reset_buzzer s sock rc = (out, s') \<and> reset_buzzer_js s sock rc = (out, s') \<and>
               out = [ToRoom rc (snapshot (heap s) (reset_room room))] \<and>
               map_get (rooms s') rc =
                 Some (room\<lparr>buzzerPressed := False, firstBuzzer := None, buzzerOrder := []\<rparr>) \<and>
               (\<forall>c. c \<noteq> rc \<longrightarrow> map_get (rooms s') c = map_get (rooms s) c) \<and>
               players_g s' = players_g s \<and> heap s' = heap s \<and>
               reset_buzzer s' sock rc = (out, s') \<and> reset_buzzer_js s' sock rc = (out, s')))"
proof (intro conjI impI)
  assume "\<not> isHost (heap s ! a)"
  with assms(2) have n: "\<not> playerData_isHost s sock" by (simp add: playerData_isHost_def)
  from reset_buzzer_not_host[OF assms(1) n]
  show "reset_buzzer s sock rc =
          ([ToSocket sock (Error ''Only the host can reset the buzzer'')], s)"
    and "reset_buzzer_js s sock rc = reset_buzzer s sock rc"
    by simp_all
next
  assume "isHost (heap s ! a)"
  with assms(2) have h: "playerData_isHost s sock" by (simp add: playerData_isHost_def)
  let ?s' = "s\<lparr>rooms := map_set (rooms s) rc (reset_room room)\<rparr>"
  let ?out = "[ToRoom rc (snapshot (heap s) (reset_room room))]"
  have r: "reset_buzzer s sock rc = (?out, ?s')" by (rule reset_buzzer_host(1)[OF assms(1) h])
  have g: "map_get (rooms ?s') rc = Some (reset_room room)" by (simp add: map_get_set)
  have h': "playerData_isHost ?s' sock" using h by (simp add: playerData_isHost_iff)
  have again: "reset_buzzer ?s' sock rc = (?out, ?s')"
    using reset_buzzer_twice[OF assms(1) h] unfolding r by simp
  have "reset_buzzer s sock rc = (?out, ?s') \<and> reset_buzzer_js s sock rc = (?out, ?s') \<and>
        ?out = [ToRoom rc (snapshot (heap s) (reset_room room))] \<and>
        map_get (rooms ?s') rc =
          Some (room\<lparr>buzzerPressed := False, firstBuzzer := None, buzzerOrder := []\<rparr>) \<and>
        (\<forall>c. c \<noteq> rc \<longrightarrow> map_get (rooms ?s') c = map_get (rooms s) c) \<and>
        players_g ?s' = players_g s \<and> heap ?s' = heap s \<and>
        reset_buzzer ?s' sock rc = (?out, ?s') \<and> reset_buzzer_js ?s' sock rc = (?out, ?s')"
    using r reset_buzzer_host(2)[OF assms(1) h] reset_buzzer_host(2)[OF g h'] again
    by (simp add: map_get_set reset_room_def)
  then show "\<exists>out s'.
      reset_buzzer s sock rc = (out, s') \<and> reset_buzzer_js s sock rc = (out, s') \<and>
      out = [ToRoom rc (snapshot (heap s) (reset_room room))] \<and>
      map_get (rooms s') rc =
        Some (room\<lparr>buzzerPressed := False, firstBuzzer := None, buzzerOrder := []\<rparr>) \<and>
      (\<forall>c. c \<noteq> rc \<longrightarrow> map_get (rooms s') c = map_get (rooms s) c) \<and>
      players_g s' = players_g s \<and> heap s' = heap s \<and>
      reset_buzzer s' sock rc = (out, s') \<and> reset_buzzer_js s' sock rc = (out, s')"
    by blast
qed

theorem reset_buzzer_host_only_witness:
  "map_get (rooms session_state) ''AAAAAA'' = Some roomA \<and>
   map_get (players_g session_state) ''s3'' = Some (2, ''AAAAAA'') \<and>
   \<not> isHost (heap session_state ! 2) \<and>
   reset_buzzer session_state ''s3'' ''AAAAAA'' =
     ([ToSocket ''s3'' (Error ''Only the host can reset the buzzer'')], session_state) \<and>
   map_get (rooms session_state) ''BBBBBB'' = Some roomB \<and>
   map_get (players_g session_state) ''s2'' = Some (1, ''BBBBBB'') \<and>
   isHost (heap session_state ! 1) \<and>
   map_get (rooms (snd (reset_buzzer session_state ''s2'' ''BBBBBB''))) ''BBBBBB'' =
     Some (roomB\<lparr>buzzerPressed := False, firstBuzzer := None, buzzerOrder := []\<rparr>)"
proof -
  have a: "map_get (rooms session_state) ''AAAAAA'' = Some roomA"
    and b: "map_get (players_g session_state) ''s3'' = Some (2, ''AAAAAA'')"
    and c: "\<not> isHost (heap session_state ! 2)"
    and d: "map_get (rooms session_state) ''BBBBBB'' = Some roomB"
    and e: "map_get (players_g session_state) ''s2'' = Some (1, ''BBBBBB'')"
    and f: "isHost (heap session_state ! 1)"
    by (simp_all add: session_state_def map_get_def dave_def bob_def)
  from reset_buzzer_host_only[OF a b] c
  have 1: "reset_buzzer session_state ''s3'' ''AAAAAA'' =
     ([ToSocket ''s3'' (Error ''Only the host can reset the buzzer'')], session_state)"
    by simp
  from reset_buzzer_host_only[OF d e] f
  have 2: "map_get (rooms (snd (reset_buzzer session_state ''s2'' ''BBBBBB''))) ''BBBBBB'' =
     Some (roomB\<lparr>buzzerPressed := False, firstBuzzer := None, buzzerOrder := []\<rparr>)"
    by auto
  from a b c d e f 1 2 show ?thesis by simp
qed

section \<open>The invariant of the buzzer fields\<close>

lemma buzzer_inv_new_Room: "buzzer_inv (new_Room now c tc hn)"
  by (simp add: buzzer_inv_def new_Room_def)

lemma buzzer_inv_players: "buzzer_inv (room\<lparr>players := ps\<rparr>) = buzzer_inv room"
  by (simp add: buzzer_inv_def)

lemma buzzer_inv_reset_room: "buzzer_inv (reset_room room)"
  by (simp add: buzzer_inv_def reset_room_def)

lemma buzzer_inv_press:
  "buzzer_inv room \<Longrightarrow> \<not> buzzerPressed room \<Longrightarrow>
   buzzer_inv (room\<lparr>buzzerPressed := True, firstBuzzer := Some e,
                    buzzerOrder := buzzerOrder room @ [e]\<rparr>)"
  by (auto simp: buzzer_inv_def)

lemma rooms_inv_set:
  "rooms_inv s \<Longrightarrow> buzzer_inv room' \<Longrightarrow> rooms s' = map_set (rooms s) rc room' \<Longrightarrow>
   rooms_inv s'"
  by (simp add: rooms_inv_def map_get_set)

lemma rooms_inv_same: "rooms_inv s \<Longrightarrow> rooms s' = rooms s \<Longrightarrow> rooms_inv s'"
  by (simp add: rooms_inv_def)

lemma rooms_inv_subset:
  "rooms_inv s \<Longrightarrow> (\<And>c room. map_get (rooms s') c = Some room \<Longrightarrow> map_get (rooms s) c = Some room)
   \<Longrightarrow> rooms_inv s'"
  by (auto simp: rooms_inv_def)

lemma rooms_inv_init: "rooms_inv init_state"
  by (simp add: rooms_inv_def init_state_def map_get_def)

lemma rooms_inv_createRoom:
  assumes "rooms_inv s" "createRoom raw now s tc hn = Some (room, s')"
  shows "rooms_inv s'"
proof -
  have "buzzer_inv room"
    by (subst createRoom_Some(1)[OF assms(2)]) (rule buzzer_inv_new_Room)
  moreover have "rooms s' = map_set (rooms s) (code room) room"
    by (subst createRoom_Some(4)[OF assms(2)]) simp
  ultimately show ?thesis by (rule rooms_inv_set[OF assms(1)])
qed

lemma join_room_rooms:
  assumes "join_room s sock rc pn ih = Inr (out, s')"
  shows "rooms s' = rooms s \<or>
         (\<exists>room. map_get (rooms s) rc = Some room \<and>
            rooms s' = map_set (rooms s) rc (room\<lparr>players := players room @ [length (heap s)]\<rparr>))"
proof (cases "map_get (rooms s) rc")
  case None
  with assms show ?thesis by (simp add: join_room_def)
next
  case (Some room)
  show ?thesis
  proof (cases "find (\<lambda>a. name (heap s ! a) = pn) (players room)")
    case None
    with assms Some show ?thesis
      by (auto simp: join_room_def Let_def split: sum.splits)
  next
    case (Some a)
    with assms \<open>map_get (rooms s) rc = Some room\<close> show ?thesis
      by (auto simp: join_room_def Let_def)
  qed
qed

lemma rooms_inv_join_room:
  assumes "rooms_inv s" "join_room s sock rc pn ih = Inr (out, s')"
  shows "rooms_inv s'"
proof -
  from join_room_rooms[OF assms(2)] show ?thesis
  proof
    assume "rooms s' = rooms s"
    with assms(1) show ?thesis by (rule rooms_inv_same)
  next
    assume "\<exists>room. map_get (rooms s) rc = Some room \<and>
            rooms s' = map_set (rooms s) rc (room\<lparr>players := players room @ [length (heap s)]\<rparr>)"
    then obtain room where r: "map_get (rooms s) rc = Some room"
      and s': "rooms s' = map_set (rooms s) rc (room\<lparr>players := players room @ [length (heap s)]\<rparr>)"
      by blast
    from assms(1) r have "buzzer_inv room" by (auto simp: rooms_inv_def)
    then have "buzzer_inv (room\<lparr>players := players room @ [length (heap s)]\<rparr>)"
      by (simp add: buzzer_inv_players)
    from rooms_inv_set[OF assms(1) this s'] show ?thesis .
  qed
qed

lemma press_buzzer_rooms:
  "rooms (snd (press_buzzer s rc pid now)) = rooms s \<or>
   (\<exists>room e. map_get (rooms s) rc = Some room \<and> \<not> buzzerPressed room \<and>
      rooms (snd (press_buzzer s rc pid now)) =
        map_set (rooms s) rc (room\<lparr>buzzerPressed := True, firstBuzzer := Some e,
                                   buzzerOrder := buzzerOrder room @ [e]\<rparr>))"
proof (cases "map_get (rooms s) rc")
  case None
  then show ?thesis by (simp add: press_buzzer_def)
next
  case (Some room)
  show ?thesis
  proof (cases "find (\<lambda>a. id_p (heap s ! a) = pid) (players room)")
    case None
    with Some show ?thesis by (simp add: press_buzzer_def)
  next
    case (Some a)
    with \<open>map_get (rooms s) rc = Some room\<close> show ?thesis
      by (auto simp: press_buzzer_def Let_def)
  qed
qed

lemma rooms_inv_press_buzzer:
  assumes "rooms_inv s"
  shows "rooms_inv (snd (press_buzzer s rc pid now))"
proof -
  from press_buzzer_rooms[of s rc pid now] show ?thesis
  proof
    assume "rooms (snd (press_buzzer s rc pid now)) = rooms s"
    with assms show ?thesis by (rule rooms_inv_same)
  next
    assume "\<exists>room e. map_get (rooms s) rc = Some room \<and> \<not> buzzerPressed room \<and>
      rooms (snd (press_buzzer s rc pid now)) =
        map_set (rooms s) rc (room\<lparr>buzzerPressed := True, firstBuzzer := Some e,
                                   buzzerOrder := buzzerOrder room @ [e]\<rparr>)"
    then obtain room e where r: "map_get (rooms s) rc = Some room" "\<not> buzzerPressed room"
      and s': "rooms (snd (press_buzzer s rc pid now)) =
        map_set (rooms s) rc (room\<lparr>buzzerPressed := True, firstBuzzer := Some e,
                                   buzzerOrder := buzzerOrder room @ [e]\<rparr>)"
      by blast
    from assms r(1) have "buzzer_inv room" by (auto simp: rooms_inv_def)
    from rooms_inv_set[OF assms buzzer_inv_press[OF this r(2)] s'] show ?thesis .
  qed
qed

lemma rooms_inv_reset_buzzer:
  assumes "rooms_inv s"
  shows "rooms_inv (snd (reset_buzzer s sock rc))"
proof (cases "map_get (rooms s) rc")
  case None
  with assms show ?thesis by (simp add: reset_buzzer_def)
next
  case (Some room)
  show ?thesis
  proof (cases "playerData_isHost s sock")
    case True
    show ?thesis
      unfolding reset_buzzer_host(1)[OF Some True] snd_conv
      by (rule rooms_inv_set[OF assms buzzer_inv_reset_room]) simp
  next
    case False
    show ?thesis
      unfolding reset_buzzer_not_host(1)[OF Some False] snd_conv by (rule assms)
  qed
qed

lemma disconnect_rooms: "rooms (snd (disconnect s sock)) = rooms s"
  by (auto simp: disconnect_def split: option.splits)

lemma rooms_inv_disconnect: "rooms_inv s \<Longrightarrow> rooms_inv (snd (disconnect s sock))"
  by (erule rooms_inv_same) (rule disconnect_rooms)

lemma rooms_inv_delete_room:
  assumes "rooms_inv s"
  shows "rooms_inv (snd (delete_room s sock rc))"
proof (rule rooms_inv_subset[OF assms])
  fix c room
  assume "map_get (rooms (snd (delete_room s sock rc))) c = Some room"
  then show "map_get (rooms s) c = Some room"
    by (cases "playerData_isHost s sock"; cases "map_get (rooms s) rc")
      (auto simp: delete_room_def map_get_delete split: if_splits)
qed

lemma rooms_inv_cleanup:
  assumes "rooms_inv s"
  shows "rooms_inv (cleanup now s)"
proof (rule rooms_inv_subset[OF assms])
  fix c room
  assume "map_get (rooms (cleanup now s)) c = Some room"
  then show "map_get (rooms s) c = Some room"
    by (simp add: cleanup_def map_get_def cleanup_fold_map_of split: if_splits)
qed

lemma rooms_inv_step:
  assumes "rooms_inv s" "step s c = Some (Inr (out, s'))"
  shows "rooms_inv s'"
proof (cases c)
  case (CreateRoom raw now tc hn)
  with assms show ?thesis
    by (auto simp: create_room_def split: option.splits dest: rooms_inv_createRoom)
next
  case (JoinRoom sock rc pn ih)
  with assms show ?thesis by (auto dest: rooms_inv_join_room)
next
  case (PressBuzzer rc pid now)
  with assms rooms_inv_press_buzzer[of s rc pid now] show ?thesis by auto
next
  case (ResetBuzzer sock rc)
  with assms rooms_inv_reset_buzzer[of s sock rc] show ?thesis by auto
next
  case (GetRoom rc)
  with assms show ?thesis by (auto simp: get_room_def split: option.splits)
next
  case (Disconnect sock)
  with assms rooms_inv_disconnect[of s sock] show ?thesis by auto
next
  case (DeleteRoom sock rc)
  with assms rooms_inv_delete_room[of s sock rc] show ?thesis by auto
next
  case (Cleanup now)
  with assms rooms_inv_cleanup[of s now] show ?thesis by auto
qed

lemma reachable_rooms_inv: "reachable s \<Longrightarrow> rooms_inv s"
  by (induction rule: reachable.induct) (auto intro: rooms_inv_init rooms_inv_step)

text \<open>
  Claim C2: in every state that a sequence of commands leads to, every room of the
  registry has \<open>buzzerPressed\<close> true exactly when \<open>firstBuzzer\<close> is present,
  \<open>buzzerOrder\<close> non-empty exactly when \<open>buzzerPressed\<close> is true, and \<open>firstBuzzer\<close>,
  when present, equal to \<open>buzzerOrder[0]\<close>.
\<close>

theorem reachable_buzzer_invariant:
  assumes "reachable s" "map_get (rooms s) c = Some room"
  shows "(buzzerPressed room \<longleftrightarrow> firstBuzzer room \<noteq> None) \<and>
         (buzzerOrder room \<noteq> [] \<longleftrightarrow> buzzerPressed room) \<and>
         (\<forall>e. firstBuzzer room = Some e \<longrightarrow>
            buzzerOrder room \<noteq> [] \<and> buzzerOrder room ! 0 = e)"
proof -
  from reachable_rooms_inv[OF assms(1)] assms(2) have "buzzer_inv room"
    by (auto simp: rooms_inv_def)
  then show ?thesis
    by (cases "buzzerOrder room") (auto simp: buzzer_inv_def)
qed

theorem reachable_buzzer_invariant_witness:
  "reachable session_state \<and> map_get (rooms session_state) ''BBBBBB'' = Some roomB \<and>
   buzzerPressed roomB \<and> firstBuzzer roomB = Some bob_buzz \<and> buzzerOrder roomB ! 0 = bob_buzz"
proof -
  have g: "map_get (rooms session_state) ''BBBBBB'' = Some roomB"
    by (simp add: session_state_def map_get_def)
  have f: "firstBuzzer roomB = Some bob_buzz" by (simp add: roomB_def)
  from reachable_buzzer_invariant[OF session_reachable g] f session_reachable g
  show ?thesis by simp
qed

section \<open>The buzzer race\<close>

lemma press_buzzer_locked:
  assumes "map_get (rooms s) rc = Some room" "buzzerPressed room"
  shows "press_buzzer s rc pid now = ([], s)" and "press_buzzer_js s rc pid now = ([], s)"
  using assms by (simp_all add: press_buzzer_def press_buzzer_js_def)

lemma press_buzzer_unknown:
  assumes "map_get (rooms s) rc = Some room" "\<not> known_player s room pid"
  shows "press_buzzer s rc pid now = ([], s)" and "press_buzzer_js s rc pid now = ([], s)"
  using assms by (simp_all add: press_buzzer_def press_buzzer_js_def known_player_def)

lemma press_buzzer_accepted:
  assumes "map_get (rooms s) rc = Some room" "\<not> buzzerPressed room"
    and "find (\<lambda>a. id_p (heap s ! a) = pid) (players room) = Some a"
  shows "press_buzzer s rc pid now =
           ([ToRoom rc (BuzzerPressed (new_BuzzerEvent (heap s ! a) now)),
             ToRoom rc (snapshot (heap s) (pressed_room s room a now))],
            s\<lparr>rooms := map_set (rooms s) rc (pressed_room s room a now)\<rparr>)"
    and "press_buzzer_js s rc pid now =
           ([ToRoom rc (snapshot (heap s) (pressed_room s room a now)),
             ToRoom rc (BuzzerPressed (new_BuzzerEvent (heap s ! a) now))],
            s\<lparr>rooms := map_set (rooms s) rc (pressed_room s room a now)\<rparr>)"
  using assms by (simp_all add: press_buzzer_def press_buzzer_js_def pressed_room_def Let_def)

lemma press_all_noop:
  assumes "\<And>pid now. press s rc pid now = ([], s)"
  shows "press_all press s rc ps = ([], s)"
  by (induction ps) (auto simp: assms)

lemma press_all_first:
  assumes unknown: "\<And>pid now. \<not> K pid \<Longrightarrow> press s rc pid now = ([], s)"
    and locks: "\<And>pid now pid' now'. K pid \<Longrightarrow>
        press (snd (press s rc pid now)) rc pid' now' = ([], snd (press s rc pid now))"
  shows "press_all press s rc ps =
           (case find (\<lambda>(pid, now). K pid) ps of
              None \<Rightarrow> ([], s)
            | Some (pid, now) \<Rightarrow> press s rc pid now)"
proof (induction ps)
  case Nil
  show ?case by simp
next
  case (Cons p ps)
  obtain pid now where p: "p = (pid, now)" by (cases p)
  show ?case
  proof (cases "K pid")
    case True
    have "press_all press (snd (press s rc pid now)) rc ps = ([], snd (press s rc pid now))"
      by (rule press_all_noop) (rule locks[OF True])
    with True show ?thesis by (cases "press s rc pid now") (simp add: p)
  next
    case False
    with Cons.IH unknown[OF False] show ?thesis by (simp add: p)
  qed
qed

lemma accepted_then_locked:
  assumes "map_get (rooms s) rc = Some room" "\<not> buzzerPressed room" "known_player s room pid"
  shows "press_buzzer (snd (press_buzzer s rc pid now)) rc pid' now' =
           ([], snd (press_buzzer s rc pid now))"
    and "press_buzzer_js (snd (press_buzzer_js s rc pid now)) rc pid' now' =
           ([], snd (press_buzzer_js s rc pid now))"
proof -
  from assms(3) obtain a where a: "find (\<lambda>a. id_p (heap s ! a) = pid) (players room) = Some a"
    by (auto simp: known_player_def)
  let ?s' = "s\<lparr>rooms := map_set (rooms s) rc (pressed_room s room a now)\<rparr>"
  have g: "map_get (rooms ?s') rc = Some (pressed_room s room a now)"
    by (simp add: map_get_set)
  have l: "buzzerPressed (pressed_room s room a now)" by (simp add: pressed_room_def)
  show "press_buzzer (snd (press_buzzer s rc pid now)) rc pid' now' =
           ([], snd (press_buzzer s rc pid now))"
    unfolding press_buzzer_accepted(1)[OF assms(1,2) a] snd_conv
    by (rule press_buzzer_locked(1)[OF g l])
  show "press_buzzer_js (snd (press_buzzer_js s rc pid now)) rc pid' now' =
           ([], snd (press_buzzer_js s rc pid now))"
    unfolding press_buzzer_accepted(2)[OF assms(1,2) a] snd_conv
    by (rule press_buzzer_locked(2)[OF g l])
qed

text \<open>
  Claim C1: a room of the registry that is open (\<open>buzzerPressed\<close> false) accepts a
  press of a known player: \<open>buzzerPressed\<close> becomes true, \<open>firstBuzzer\<close> is the event
  and \<open>buzzerOrder\<close> gets it appended. Of a sequence of presses handled on an open
  room, the first one of a known player is accepted and all the others are
  no-ops: the messages and the final state are those of that press alone. On a locked
  room every press of the sequence is a no-op, with no message. A reset by a host
  makes the room open again. The two versions of the handler agree on all of this.
\<close>

theorem first_press_wins:
  assumes "map_get (rooms s) rc = Some room"
  shows "(\<not> buzzerPressed room \<longrightarrow>
            (\<forall>a. find (\<lambda>a. id_p (heap s ! a) = pid) (players room) = Some a \<longrightarrow>
               press_buzzer s rc pid now =
                 ([ToRoom rc (BuzzerPressed (new_BuzzerEvent (heap s ! a) now)),
                   ToRoom rc (snapshot (heap s) (pressed_room s room a now))],
                  s\<lparr>rooms := map_set (rooms s) rc (pressed_room s room a now)\<rparr>) \<and>
               snd (press_buzzer_js s rc pid now) = snd (press_buzzer s rc pid now) \<and>
               map_get (rooms (snd (press_buzzer s rc pid now))) rc =
                 Some (room\<lparr>buzzerPressed := True,
                            firstBuzzer := Some (new_BuzzerEvent (heap s ! a) now),
                            buzzerOrder := buzzerOrder room @
                                             [new_BuzzerEvent (heap s ! a) now]\<rparr>)) \<and>
            press_all press_buzzer s rc ps =
              (case find (\<lambda>(pid, now). known_player s room pid) ps of
                 None \<Rightarrow> ([], s)
               | Some (pid, now) \<Rightarrow> press_buzzer s rc pid now) \<and>
            press_all press_buzzer_js s rc ps =
              (case find (\<lambda>(pid, now). known_player s room pid) ps of
                 None \<Rightarrow> ([], s)
               | Some (pid, now) \<Rightarrow> press_buzzer_js s rc pid now)) \<and>
         (buzzerPressed room \<longrightarrow>
            press_all press_buzzer s rc ps = ([], s) \<and>
            press_all press_buzzer_js s rc ps = ([], s)) \<and>
         (playerData_isHost s sock \<longrightarrow>
            (\<exists>room'. map_get (rooms (snd (reset_buzzer s sock rc))) rc = Some room' \<and>
                     \<not> buzzerPressed room'))"
proof (intro conjI impI allI)
  fix a
  assume o: "\<not> buzzerPressed room"
    and a: "find (\<lambda>a. id_p (heap s ! a) = pid) (players room) = Some a"
  show "press_buzzer s rc pid now =
          ([ToRoom rc (BuzzerPressed (new_BuzzerEvent (heap s ! a) now)),
            ToRoom rc (snapshot (heap s) (pressed_room s room a now))],
           s\<lparr>rooms := map_set (rooms s) rc (pressed_room s room a now)\<rparr>)"
    by (rule press_buzzer_accepted(1)[OF assms o a])
  show "snd (press_buzzer_js s rc pid now) = snd (press_buzzer s rc pid now)"
    by (simp add: press_buzzer_accepted[OF assms o a])
  show "map_get (rooms (snd (press_buzzer s rc pid now))) rc =
          Some (room\<lparr>buzzerPressed := True,
                     firstBuzzer := Some (new_BuzzerEvent (heap s ! a) now),
                     buzzerOrder := buzzerOrder room @ [new_BuzzerEvent (heap s ! a) now]\<rparr>)"
    by (simp add: press_buzzer_accepted(1)[OF assms o a] map_get_set pressed_room_def)
next
  assume o: "\<not> buzzerPressed room"
  show "press_all press_buzzer s rc ps =
          (case find (\<lambda>(pid, now). known_player s room pid) ps of
             None \<Rightarrow> ([], s)
           | Some (pid, now) \<Rightarrow> press_buzzer s rc pid now)"
    by (rule press_all_first)
      (rule press_buzzer_unknown(1)[OF assms], assumption,
       rule accepted_then_locked(1)[OF assms o], assumption)
next
  assume o: "\<not> buzzerPressed room"
  show "press_all press_buzzer_js s rc ps =
          (case find (\<lambda>(pid, now). known_player s room pid) ps of
             None \<Rightarrow> ([], s)
           | Some (pid, now) \<Rightarrow> press_buzzer_js s rc pid now)"
    by (rule press_all_first)
      (rule press_buzzer_unknown(2)[OF assms], assumption,
       rule accepted_then_locked(2)[OF assms o], assumption)
next
  assume l: "buzzerPressed room"
  show "press_all press_buzzer s rc ps = ([], s)"
    by (rule press_all_noop) (rule press_buzzer_locked(1)[OF assms l])
  show "press_all press_buzzer_js s rc ps = ([], s)"
    by (rule press_all_noop) (rule press_buzzer_locked(2)[OF assms l])
next
  assume h: "playerData_isHost s sock"
  show "\<exists>room'. map_get (rooms (snd (reset_buzzer s sock rc))) rc = Some room' \<and>
                \<not> buzzerPressed room'"
    by (simp add: reset_buzzer_host(1)[OF assms h] map_get_set reset_room_def)
qed

theorem first_press_wins_witness:
  "map_get (rooms session_state) ''AAAAAA'' = Some roomA \<and> \<not> buzzerPressed roomA \<and>
   press_all press_buzzer session_state ''AAAAAA'' [(''zz'', 10), (''s3'', 20), (''s1'', 30)] =
     press_buzzer session_state ''AAAAAA'' ''s3'' 20 \<and>
   map_get (rooms (snd (press_buzzer session_state ''AAAAAA'' ''s3'' 20))) ''AAAAAA'' =
     Some (roomA\<lparr>buzzerPressed := True,
                 firstBuzzer := Some (new_BuzzerEvent dave 20),
                 buzzerOrder := [new_BuzzerEvent dave 20]\<rparr>) \<and>
   map_get (rooms session_state) ''BBBBBB'' = Some roomB \<and> buzzerPressed roomB \<and>
   press_all press_buzzer session_state ''BBBBBB'' [(''s2'', 40), (''s2'', 50)] =
     ([], session_state)"
proof -
  define ps :: "(string \<times> int) list" where "ps = [(''zz'', 10), (''s3'', 20), (''s1'', 30)]"
  define qs :: "(string \<times> int) list" where "qs = [(''s2'', 40), (''s2'', 50)]"
  have gA: "map_get (rooms session_state) ''AAAAAA'' = Some roomA"
    and gB: "map_get (rooms session_state) ''BBBBBB'' = Some roomB"
    by (simp_all add: session_state_def map_get_def)
  have oA: "\<not> buzzerPressed roomA" and lB: "buzzerPressed roomB"
    by (simp_all add: roomA_def roomB_def)
  have k: "find (\<lambda>(pid, now). known_player session_state roomA pid) ps = Some (''s3'', 20)"
    by (simp add: ps_def known_player_def session_state_def roomA_def alice_def dave_def)
  have f: "find (\<lambda>a. id_p (heap session_state ! a) = ''s3'') (players roomA) = Some 2"
    by (simp add: session_state_def roomA_def alice_def dave_def)
  have h: "heap session_state ! 2 = dave" by (simp add: session_state_def)
  have e: "buzzerOrder roomA = []" by (simp add: roomA_def)
  note A = first_press_wins[OF gA, of "''s3''" 20 ps "''s1''"]
  from A oA k have 1: "press_all press_buzzer session_state ''AAAAAA'' ps =
           press_buzzer session_state ''AAAAAA'' ''s3'' 20"
    by simp
  from A oA f h e
  have 2: "map_get (rooms (snd (press_buzzer session_state ''AAAAAA'' ''s3'' 20))) ''AAAAAA'' =
     Some (roomA\<lparr>buzzerPressed := True,
                 firstBuzzer := Some (new_BuzzerEvent dave 20),
                 buzzerOrder := [new_BuzzerEvent dave 20]\<rparr>)"
    by (simp add: map_get_set pressed_room_def)
  from first_press_wins[OF gB, of "''s2''" 40 qs "''s1''"] lB
  have 3: "press_all press_buzzer session_state ''BBBBBB'' qs = ([], session_state)"
    by simp
  from gA gB oA lB 1 2 3 show ?thesis unfolding ps_def qs_def by simp
qed

section \<open>The host check\<close>

lemma delete_room_host:
  assumes "map_get (rooms s) rc = Some room" "playerData_isHost s sock"
  shows "delete_room s sock rc =
           ([ToRoom rc RoomDeleted],
            s\<lparr>players_g := fold (delete_entry_of (heap s)) (players room) (players_g s),
              rooms := map_delete (rooms s) rc\<rparr>)"
  using assms by (simp add: delete_room_def)

text \<open>
  Claim C3: the check of \<^verbatim>\<open>reset-buzzer\<close> and \<^verbatim>\<open>delete-room\<close> looks only at the
  \<open>isHost\<close> flag of the player the connection is bound to. Whatever room \<open>rcA\<close> that
  player is bound to, and whether or not the player is in the room \<open>rcB\<close> of the
  request, the reset clears the buzzer of \<open>rcB\<close> and the deletion removes \<open>rcB\<close> from the
  registry. The sample session reaches a state with two rooms in which the host of the
  first, who is not a player of the second, resets and deletes the second.
\<close>

theorem host_check_ignores_room:
  "(\<forall>(s::state) sock a rcA rcB roomB.
      map_get (players_g s) sock = Some (a, rcA) \<and> isHost (heap s ! a) \<and>
      map_get (rooms s) rcB = Some roomB \<longrightarrow>
        reset_buzzer s sock rcB =
          ([ToRoom rcB (snapshot (heap s) (reset_room roomB))],
           s\<lparr>rooms := map_set (rooms s) rcB (reset_room roomB)\<rparr>) \<and>
        reset_buzzer_js s sock rcB = reset_buzzer s sock rcB \<and>
        fst (delete_room s sock rcB) = [ToRoom rcB RoomDeleted] \<and>
        map_get (rooms (snd (delete_room s sock rcB))) rcB = None) \<and>
   (\<exists>(s::state) sock a rcA rcB roomA roomB.
      reachable s \<and> rcA \<noteq> rcB \<and>
      map_get (rooms s) rcA = Some roomA \<and> map_get (rooms s) rcB = Some roomB \<and>
      map_get (players_g s) sock = Some (a, rcA) \<and> isHost (heap s ! a) \<and>
      a \<in> set (players roomA) \<and> a \<notin> set (players roomB) \<and> buzzerPressed roomB \<and>
      (\<exists>roomB'. map_get (rooms (snd (reset_buzzer s sock rcB))) rcB = Some roomB' \<and>
                 \<not> buzzerPressed roomB') \<and>
      fst (reset_buzzer s sock rcB) = [ToRoom rcB (snapshot (heap s) (reset_room roomB))] \<and>
      fst (delete_room s sock rcB) = [ToRoom rcB RoomDeleted] \<and>
      map_get (rooms (snd (delete_room s sock rcB))) rcB = None)"
proof (rule conjI)
  show gen: "\<forall>(s::state) sock a rcA rcB roomB.
      map_get (players_g s) sock = Some (a, rcA) \<and> isHost (heap s ! a) \<and>
      map_get (rooms s) rcB = Some roomB \<longrightarrow>
        reset_buzzer s sock rcB =
          ([ToRoom rcB (snapshot (heap s) (reset_room roomB))],
           s\<lparr>rooms := map_set (rooms s) rcB (reset_room roomB)\<rparr>) \<and>
        reset_buzzer_js s sock rcB = reset_buzzer s sock rcB \<and>
        fst (delete_room s sock rcB) = [ToRoom rcB RoomDeleted] \<and>
        map_get (rooms (snd (delete_room s sock rcB))) rcB = None"
  proof (intro allI impI, elim conjE)
    fix s :: state and sock a rcA rcB roomB
    assume p: "map_get (players_g s) sock = Some (a, rcA)" and i: "isHost (heap s ! a)"
      and r: "map_get (rooms s) rcB = Some roomB"
    from p i have h: "playerData_isHost s sock" by (simp add: playerData_isHost_def)
    show "reset_buzzer s sock rcB =
          ([ToRoom rcB (snapshot (heap s) (reset_room roomB))],
           s\<lparr>rooms := map_set (rooms s) rcB (reset_room roomB)\<rparr>) \<and>
        reset_buzzer_js s sock rcB = reset_buzzer s sock rcB \<and>
        fst (delete_room s sock rcB) = [ToRoom rcB RoomDeleted] \<and>
        map_get (rooms (snd (delete_room s sock rcB))) rcB = None"
      using reset_buzzer_host[OF r h] by (simp add: delete_room_host[OF r h] map_get_delete)
  qed
  have p: "map_get (players_g session_state) ''s1'' = Some (0, ''AAAAAA'')"
    and gA: "map_get (rooms session_state) ''AAAAAA'' = Some roomA"
    and gB: "map_get (rooms session_state) ''BBBBBB'' = Some roomB"
    and i: "isHost (heap session_state ! 0)"
    by (simp_all add: session_state_def map_get_def alice_def)
  from p i have h: "playerData_isHost session_state ''s1''"
    by (simp add: playerData_isHost_def)
  have "reachable session_state \<and> ''AAAAAA'' \<noteq> ''BBBBBB'' \<and>
      map_get (rooms session_state) ''AAAAAA'' = Some roomA \<and>
      map_get (rooms session_state) ''BBBBBB'' = Some roomB \<and>
      map_get (players_g session_state) ''s1'' = Some (0, ''AAAAAA'') \<and>
      isHost (heap session_state ! 0) \<and>
      0 \<in> set (players roomA) \<and> 0 \<notin> set (players roomB) \<and> buzzerPressed roomB \<and>
      (\<exists>roomB'. map_get (rooms (snd (reset_buzzer session_state ''s1'' ''BBBBBB''))) ''BBBBBB'' =
                   Some roomB' \<and> \<not> buzzerPressed roomB') \<and>
      fst (reset_buzzer session_state ''s1'' ''BBBBBB'') =
        [ToRoom ''BBBBBB'' (snapshot (heap session_state) (reset_room roomB))] \<and>
      fst (delete_room session_state ''s1'' ''BBBBBB'') = [ToRoom ''BBBBBB'' RoomDeleted] \<and>
      map_get (rooms (snd (delete_room session_state ''s1'' ''BBBBBB''))) ''BBBBBB'' = None"
    using session_reachable p gA gB i
    by (simp add: reset_buzzer_host(1)[OF gB h] delete_room_host[OF gB h] map_get_set
        map_get_delete reset_room_def roomA_def roomB_def)
  then show "\<exists>(s::state) sock a rcA rcB roomA roomB.
      reachable s \<and> rcA \<noteq> rcB \<and>
      map_get (rooms s) rcA = Some roomA \<and> map_get (rooms s) rcB = Some roomB \<and>
      map_get (players_g s) sock = Some (a, rcA) \<and> isHost (heap s ! a) \<and>
      a \<in> set (players roomA) \<and> a \<notin> set (players roomB) \<and> buzzerPressed roomB \<and>
      (\<exists>roomB'. map_get (rooms (snd (reset_buzzer s sock rcB))) rcB = Some roomB' \<and>
                 \<not> buzzerPressed roomB') \<and>
      fst (reset_buzzer s sock rcB) = [ToRoom rcB (snapshot (heap s) (reset_room roomB))] \<and>
      fst (delete_room s sock rcB) = [ToRoom rcB RoomDeleted] \<and>
      map_get (rooms (snd (delete_room s sock rcB))) rcB = None"
    by (intro exI)
qed

theorem host_check_ignores_room_witness:
  "map_get (players_g session_state) ''s1'' = Some (0, ''AAAAAA'') \<and>
   isHost (heap session_state ! 0) \<and>
   map_get (rooms session_state) ''BBBBBB'' = Some roomB \<and>
   reset_buzzer session_state ''s1'' ''BBBBBB'' =
     ([ToRoom ''BBBBBB'' (snapshot (heap session_state) (reset_room roomB))],
      session_state\<lparr>rooms := map_set (rooms session_state) ''BBBBBB'' (reset_room roomB)\<rparr>) \<and>
   fst (delete_room session_state ''s1'' ''BBBBBB'') = [ToRoom ''BBBBBB'' RoomDeleted] \<and>
   map_get (rooms (snd (delete_room session_state ''s1'' ''BBBBBB''))) ''BBBBBB'' = None"
proof -
  have p: "map_get (players_g session_state) ''s1'' = Some (0, ''AAAAAA'')"
    and gB: "map_get (rooms session_state) ''BBBBBB'' = Some roomB"
    and i: "isHost (heap session_state ! 0)"
    by (simp_all add: session_state_def map_get_def alice_def)
  from host_check_ignores_room have
    "map_get (players_g session_state) ''s1'' = Some (0, ''AAAAAA'') \<and>
     isHost (heap session_state ! 0) \<and>
     map_get (rooms session_state) ''BBBBBB'' = Some roomB \<longrightarrow>
       reset_buzzer session_state ''s1'' ''BBBBBB'' =
         ([ToRoom ''BBBBBB'' (snapshot (heap session_state) (reset_room roomB))],
          session_state\<lparr>rooms := map_set (rooms session_state) ''BBBBBB'' (reset_room roomB)\<rparr>) \<and>
       reset_buzzer_js session_state ''s1'' ''BBBBBB'' =
         reset_buzzer session_state ''s1'' ''BBBBBB'' \<and>
       fst (delete_room session_state ''s1'' ''BBBBBB'') = [ToRoom ''BBBBBB'' RoomDeleted] \<and>
       map_get (rooms (snd (delete_room session_state ''s1'' ''BBBBBB''))) ''BBBBBB'' = None"
    by (elim conjE allE)
  with p gB i show ?thesis by simp
qed

section \<open>Team assignment\<close>










section \<open>Joining again\<close>

lemma join_room_reconnect:
  assumes "map_get (rooms s) rc = Some room"
    and "find (\<lambda>a. name (heap s ! a) = pn) (players room) = Some a"
  shows "join_room s sock rc pn ih =
           Inr ([ToSocket sock (PlayerJoined ((heap s)[a := (heap s ! a)\<lparr>socketId := sock\<rparr>] ! a)),
                 ToRoom rc (snapshot ((heap s)[a := (heap s ! a)\<lparr>socketId := sock\<rparr>]) room)],
                s\<lparr>players_g := map_set (players_g s) sock (a, rc),
                  heap := (heap s)[a := (heap s ! a)\<lparr>socketId := sock\<rparr>]\<rparr>)"
  using assms by (simp add: join_room_def Let_def)

lemma reconnect_run:
  "step session_state (JoinRoom ''s9'' ''AAAAAA'' ''Dave'' False) =
     Some (Inr ([ToSocket ''s9'' (PlayerJoined (dave\<lparr>socketId := ''s9''\<rparr>)),
                 ToRoom ''AAAAAA'' (snapshot (heap reconnected_state) roomA)],
                reconnected_state))"
  by (simp add: join_room_def session_defs js_map_defs Let_def)

text \<open>
  Claim C8: a \<^verbatim>\<open>join-room\<close> for a room of the registry with the name of a player of
  that room does not fail; the registry of rooms, and so every room's list of players,
  is as before; the player found keeps \<open>id\<close>, \<open>name\<close>, \<open>team\<close> and \<open>isHost\<close>, and its
  \<open>socketId\<close> is the joining connection; no other player object changes and none is
  created; the \<^verbatim>\<open>players\<close> map binds the joining connection to that player and room and
  is otherwise as before.
\<close>

theorem rejoin_rebinds_connection_only:
  assumes "reachable s" "map_get (rooms s) rc = Some room"
    and "find (\<lambda>a. name (heap s ! a) = pn) (players room) = Some a"
  shows "\<exists>out s'. join_room s sock rc pn ih = Inr (out, s') \<and>
           rooms s' = rooms s \<and>
           length (heap s') = length (heap s) \<and>
           id_p (heap s' ! a) = id_p (heap s ! a) \<and>
           name (heap s' ! a) = name (heap s ! a) \<and>
           team_p (heap s' ! a) = team_p (heap s ! a) \<and>
           isHost (heap s' ! a) = isHost (heap s ! a) \<and>
           socketId (heap s' ! a) = sock \<and>
           (\<forall>b. b \<noteq> a \<longrightarrow> heap s' ! b = heap s ! b) \<and>
           map_get (players_g s') sock = Some (a, rc) \<and>
           (\<forall>k. k \<noteq> sock \<longrightarrow> map_get (players_g s') k = map_get (players_g s) k)"
proof -
  from assms(3) have "a \<in> set (players room)" by (auto simp: find_Some_iff)
  moreover from assms(2) have "(rc, room) \<in> set (rooms s)" by (rule map_get_in_set)
  ultimately have a: "a < length (heap s)"
    using reachable_wf[OF assms(1)] unfolding wf_state_def refs_ok_def by fastforce
  show ?thesis
    unfolding join_room_reconnect[OF assms(2,3)]
    using a by (simp add: map_get_set)
qed

theorem rejoin_rebinds_connection_only_witness:
  "reachable session_state \<and> map_get (rooms session_state) ''AAAAAA'' = Some roomA \<and>
   find (\<lambda>a. name (heap session_state ! a) = ''Dave'') (players roomA) = Some 2 \<and>
   (\<exists>out. join_room session_state ''s9'' ''AAAAAA'' ''Dave'' False = Inr (out, reconnected_state)) \<and>
   rooms reconnected_state = rooms session_state \<and>
   id_p (heap reconnected_state ! 2) = id_p (heap session_state ! 2) \<and>
   socketId (heap reconnected_state ! 2) = ''s9''"
proof -
  have g: "map_get (rooms session_state) ''AAAAAA'' = Some roomA"
    by (simp add: session_state_def map_get_def)
  have f: "find (\<lambda>a. name (heap session_state ! a) = ''Dave'') (players roomA) = Some 2"
    by (simp add: session_state_def roomA_def alice_def dave_def)
  from reconnect_run have j: "join_room session_state ''s9'' ''AAAAAA'' ''Dave'' False =
      Inr ([ToSocket ''s9'' (PlayerJoined (dave\<lparr>socketId := ''s9''\<rparr>)),
            ToRoom ''AAAAAA'' (snapshot (heap reconnected_state) roomA)], reconnected_state)"
    by simp
  from rejoin_rebinds_connection_only[OF session_reachable g f, of "''s9''" False]
  have "rooms reconnected_state = rooms session_state \<and>
        id_p (heap reconnected_state ! 2) = id_p (heap session_state ! 2) \<and>
        socketId (heap reconnected_state ! 2) = ''s9''"
    unfolding j by simp
  with session_reachable g f j show ?thesis by simp
qed

section \<open>The player's id\<close>






end
